theory Spec2Isabelle
  imports
    Main
    "HOL-Library.Multiset"
    "HOL-Library.Sublist"
    "HOL-Library.AList"
    "HOL-Library.Char_ord"
    "HOL-Library.List_Lexorder"
begin

section \<open>Data model\<close>

text \<open>
  The snapshot engine of the repository: \<^verbatim>\<open>src/controls/snap.ts\<close> (tree hasher, duplicate
  checks, artifact and log writer, object store writes) and \<^verbatim>\<open>src/utils/recursive.ts\<close>
  (snapshot loader and tree reconstructor).

  Strings are byte lists.  A path is the list of its components below the directory the
  command runs in, so \<^verbatim>\<open>path.join(cwd, ".subsys", "objects")\<close> is
  \<open>[''.subsys'', ''objects'']\<close>.  Symbolic links are not modelled.
\<close>

type_synonym path = "string list"

text \<open>The file system below \<^verbatim>\<open>cwd\<close>.  The order of a directory's entries is the
  order in which \<^verbatim>\<open>readdir\<close> lists them.\<close>

datatype fsnode = File string | Dir "(string \<times> fsnode) list"

text \<open>What \<^verbatim>\<open>JSON.parse\<close> returns.\<close>

datatype json =
    JNull
  | JBool bool
  | JNum int
  | JStr string
  | JArr "json list"
  | JObj "(string \<times> json) list"

text \<open>
  The functions of the platform that the code calls and that are not code of the
  repository are parameters of the model:
  \<^item> \<open>sha1_hex\<close>: \<^verbatim>\<open>crypto.createHash("sha1").update(x).digest("hex")\<close>;
  \<^item> \<open>localeCompare\<close>: \<^verbatim>\<open>a.localeCompare(b)\<close>, negative, zero or positive;
  \<^item> \<open>glob_sync\<close>: \<^verbatim>\<open>glob.sync(pattern, {cwd})\<close> on the tree below \<^verbatim>\<open>cwd\<close>;
  \<^item> \<open>JSON_parse\<close> (\<open>None\<close> when it throws), \<open>JSON_stringify\<close> and
    \<open>JSON_stringify_pretty\<close> (\<^verbatim>\<open>JSON.stringify(x, null, 2)\<close>);
  \<^item> \<open>gzipSync\<close> and \<open>gunzipSync\<close> (\<open>None\<close> when it throws).
\<close>

record env =
  sha1_hex :: "string \<Rightarrow> string"
  localeCompare :: "string \<Rightarrow> string \<Rightarrow> int"
  glob_sync :: "string \<Rightarrow> fsnode \<Rightarrow> string list"
  JSON_parse :: "string \<Rightarrow> json option"
  JSON_stringify :: "json \<Rightarrow> string"
  JSON_stringify_pretty :: "json \<Rightarrow> string"
  gzipSync :: "string \<Rightarrow> string"
  gunzipSync :: "string \<Rightarrow> string option"

text \<open>\<^verbatim>\<open>interface TreeObject { type; name; hash; children? }\<close>\<close>

datatype kind = Tree | Blob

datatype TreeObject =
  TreeObject (type: kind) (name: string) (hash: string) (children: "TreeObject list option")

section \<open>The tree hasher\<close>

text \<open>\<^verbatim>\<open>Array.prototype.sort\<close> with a comparison function: a stable sort, here by
  insertion.  The element inserted stood before the ones already placed, so it goes before
  the first of them it does not compare greater than.\<close>

fun insort_by :: "('a \<Rightarrow> 'a \<Rightarrow> int) \<Rightarrow> 'a \<Rightarrow> 'a list \<Rightarrow> 'a list" where
  "insort_by cmp x [] = [x]"
| "insort_by cmp x (y # ys) = (if cmp x y \<le> 0 then x # y # ys else y # insort_by cmp x ys)"

definition sort_by :: "('a \<Rightarrow> 'a \<Rightarrow> int) \<Rightarrow> 'a list \<Rightarrow> 'a list" where
  "sort_by cmp xs = foldr (insort_by cmp) xs []"

definition kind_str :: "kind \<Rightarrow> string" where
  "kind_str k = (case k of Tree \<Rightarrow> ''tree'' | Blob \<Rightarrow> ''blob'')"

text \<open>The record of one child in the serialisation that is hashed:
  \<^verbatim>\<open>`${obj.type} ${obj.name}\0${obj.hash}`\<close>.\<close>

definition serialize :: "TreeObject \<Rightarrow> string" where
  "serialize obj = kind_str (type obj) @ '' '' @ name obj @ [CHR 0x00] @ hash obj"

definition serializedTree :: "TreeObject list \<Rightarrow> string" where
  "serializedTree objs = concat (map serialize objs)"

text \<open>The names \<^verbatim>\<open>calculateTreeHash\<close> skips in every directory.\<close>

definition skipped :: "string set \<Rightarrow> string \<Rightarrow> bool" where
  "skipped ignoreList entry \<longleftrightarrow>
     entry = ''.subsys'' \<or> entry = ''node_modules'' \<or> entry = ''config.json'' \<or> entry \<in> ignoreList"

text \<open>
  \<^verbatim>\<open>calculateTreeHash(directoryPath, ignoreList)\<close>, on the entries of the directory.
  \<open>treeChildren\<close> is its loop over the entries.  For a directory the source calls
  itself twice, once for the hash and once for the children.
\<close>

fun calculateTreeHash :: "env \<Rightarrow> string set \<Rightarrow> (string \<times> fsnode) list \<Rightarrow> TreeObject"
  and treeChildren :: "env \<Rightarrow> string set \<Rightarrow> (string \<times> fsnode) list \<Rightarrow> TreeObject list"
where
  "calculateTreeHash E ignoreList entries =
     (let sorted = sort_by (\<lambda>a b. localeCompare E (name a) (name b))
                     (treeChildren E ignoreList entries)
      in TreeObject Tree [] (sha1_hex E (serializedTree sorted)) (Some sorted))"
| "treeChildren E ignoreList [] = []"
| "treeChildren E ignoreList ((entry, node) # rest) =
     (if skipped ignoreList entry then treeChildren E ignoreList rest
      else (case node of
              File content \<Rightarrow> TreeObject Blob entry (sha1_hex E content) None
            | Dir sub \<Rightarrow>
                TreeObject Tree entry (hash (calculateTreeHash E ignoreList sub))
                  (children (calculateTreeHash E ignoreList sub)))
           # treeChildren E ignoreList rest)"

text \<open>A tree object and every object below it.\<close>

fun nodes :: "TreeObject \<Rightarrow> TreeObject list" where
  "nodes (TreeObject k n h cs) =
     TreeObject k n h cs # (case cs of None \<Rightarrow> [] | Some xs \<Rightarrow> concat (map nodes xs))"

text \<open>A file system gives the entries of one directory different names.\<close>

fun wf_fs :: "fsnode \<Rightarrow> bool" where
  "wf_fs (File c) = True"
| "wf_fs (Dir es) = (distinct (map fst es) \<and> (\<forall>e \<in> set es. wf_fs (snd e)))"

text \<open>Two trees with the same files and directories, every directory listed in any order.\<close>

fun reordered :: "fsnode \<Rightarrow> fsnode \<Rightarrow> bool" where
  "reordered (File c) (File d) = (c = d)"
| "reordered (Dir es) (Dir gs) =
     (mset (map fst es) = mset (map fst gs) \<and>
      (\<forall>e \<in> set es. case map_of gs (fst e) of None \<Rightarrow> False | Some y \<Rightarrow> reordered (snd e) y))"
| "reordered (File c) (Dir gs) = False"
| "reordered (Dir es) (File d) = False"

text \<open>A comparison that sorts: of two names one does not come after the other, and the
  names in between come in between.\<close>

definition preorders_names :: "(string \<Rightarrow> string \<Rightarrow> int) \<Rightarrow> bool" where
  "preorders_names cmp \<longleftrightarrow>
     (\<forall>a b. cmp a b \<le> 0 \<or> cmp b a \<le> 0) \<and>
     (\<forall>a b c. cmp a b \<le> 0 \<and> cmp b c \<le> 0 \<longrightarrow> cmp a c \<le> 0)"

text \<open>The comparison tells the entries of every directory apart: no directory has two
  different names of which neither comes after the other.\<close>

fun told_apart :: "(string \<Rightarrow> string \<Rightarrow> int) \<Rightarrow> fsnode \<Rightarrow> bool" where
  "told_apart cmp (File c) = True"
| "told_apart cmp (Dir es) =
     ((\<forall>a \<in> set (map fst es). \<forall>b \<in> set (map fst es). cmp a b \<le> 0 \<and> cmp b a \<le> 0 \<longrightarrow> a = b) \<and>
      (\<forall>e \<in> set es. told_apart cmp (snd e)))"

section \<open>File system operations\<close>

text \<open>What the \<^verbatim>\<open>fs\<close> calls throw, and the other exceptions the code can meet.
  \<open>Error\<close> is the \<^verbatim>\<open>new Error("Error")\<close> of \<^verbatim>\<open>getIgnoreList\<close>.\<close>

datatype error = ENOENT | ENOTDIR | EISDIR | EEXIST | SyntaxError | TypeError | ZlibError | Error

text \<open>The lines the code prints, one constructor for each \<^verbatim>\<open>console.error\<close> and
  \<^verbatim>\<open>console.log\<close> call.\<close>

datatype message =
    InvalidSlug
  | NameExists
  | ContentExists
  | UpToDate
  | DuplicateNameCheckFailed error
  | DuplicateSHACheckFailed error
  | SnapshotFileFailed path error
  | SnapshotCreated string
  | DecompressFailed path error
  | ObjectFileNotFound path
  | NotAFile path
  | TreeRecreated string

text \<open>The effects of a run, in the order they happen.\<close>

datatype event = Mkdir path | WriteFile path string | ConsoleError message | ConsoleLog message

record state =
  fs :: fsnode
  trace :: "event list"

fun lookup :: "fsnode \<Rightarrow> path \<Rightarrow> fsnode option" where
  "lookup n [] = Some n"
| "lookup (File c) (x # p) = None"
| "lookup (Dir es) (x # p) = (case map_of es x of None \<Rightarrow> None | Some n \<Rightarrow> lookup n p)"

definition existsSync :: "fsnode \<Rightarrow> path \<Rightarrow> bool" where
  "existsSync root p \<longleftrightarrow> lookup root p \<noteq> None"

definition isFile :: "fsnode \<Rightarrow> bool" where
  "isFile n = (case n of File c \<Rightarrow> True | Dir es \<Rightarrow> False)"

definition readFileSync :: "fsnode \<Rightarrow> path \<Rightarrow> error + string" where
  "readFileSync root p =
     (case lookup root p of
        None \<Rightarrow> Inl ENOENT
      | Some (Dir es) \<Rightarrow> Inl EISDIR
      | Some (File c) \<Rightarrow> Inr c)"

text \<open>\<^verbatim>\<open>fs.mkdirSync(p, { recursive: true })\<close>: creates the missing directories of the
  path; a file on the way is an error.  A new entry is listed last.\<close>

fun mkdirp :: "fsnode \<Rightarrow> path \<Rightarrow> error + fsnode" where
  "mkdirp (File c) [] = Inl EEXIST"
| "mkdirp (File c) (x # p) = Inl ENOTDIR"
| "mkdirp (Dir es) [] = Inr (Dir es)"
| "mkdirp (Dir es) (x # p) =
     (case mkdirp (case map_of es x of None \<Rightarrow> Dir [] | Some n \<Rightarrow> n) p of
        Inl e \<Rightarrow> Inl e
      | Inr n' \<Rightarrow> Inr (Dir (AList.update x n' es)))"

text \<open>\<^verbatim>\<open>fs.writeFileSync(p, data)\<close>: the parent must be a directory and the target must
  not be one; an existing file is replaced.\<close>

fun writeFile :: "fsnode \<Rightarrow> path \<Rightarrow> string \<Rightarrow> error + fsnode" where
  "writeFile (File c) [] bytes = Inr (File bytes)"
| "writeFile (Dir es) [] bytes = Inl EISDIR"
| "writeFile (File c) (x # p) bytes = Inl ENOTDIR"
| "writeFile (Dir es) (x # p) bytes =
     (case map_of es x of
        None \<Rightarrow> (if p = [] then Inr (Dir (AList.update x (File bytes) es)) else Inl ENOENT)
      | Some n \<Rightarrow>
          (case writeFile n p bytes of
             Inl e \<Rightarrow> Inl e
           | Inr n' \<Rightarrow> Inr (Dir (AList.update x n' es))))"

definition mkdirSync :: "path \<Rightarrow> state \<Rightarrow> state \<times> (error + unit)" where
  "mkdirSync p st =
     (case mkdirp (fs st) p of
        Inl e \<Rightarrow> (st, Inl e)
      | Inr root \<Rightarrow> (st\<lparr>fs := root, trace := trace st @ [Mkdir p]\<rparr>, Inr ()))"

definition writeFileSync :: "path \<Rightarrow> string \<Rightarrow> state \<Rightarrow> state \<times> (error + unit)" where
  "writeFileSync p bytes st =
     (case writeFile (fs st) p bytes of
        Inl e \<Rightarrow> (st, Inl e)
      | Inr root \<Rightarrow> (st\<lparr>fs := root, trace := trace st @ [WriteFile p bytes]\<rparr>, Inr ()))"

definition console_error :: "message \<Rightarrow> state \<Rightarrow> state" where
  "console_error m st = st\<lparr>trace := trace st @ [ConsoleError m]\<rparr>"

definition console_log :: "message \<Rightarrow> state \<Rightarrow> state" where
  "console_log m st = st\<lparr>trace := trace st @ [ConsoleLog m]\<rparr>"

text \<open>\<^verbatim>\<open>if (!fs.existsSync(p)) { fs.mkdirSync(p, { recursive: true }); }\<close>\<close>

definition ensureDir :: "path \<Rightarrow> state \<Rightarrow> state \<times> (error + unit)" where
  "ensureDir p st = (if \<not> existsSync (fs st) p then mkdirSync p st else (st, Inr ()))"

section \<open>The snapshot log and the duplicate checks\<close>

text \<open>\<^verbatim>\<open>entry.key\<close> on a parsed value: a \<open>TypeError\<close> on \<^verbatim>\<open>null\<close>,
  \<^verbatim>\<open>undefined\<close> (\<open>None\<close>) where the value has no such property.\<close>

definition get_prop :: "json \<Rightarrow> string \<Rightarrow> error + json option" where
  "get_prop entry key =
     (case entry of
        JNull \<Rightarrow> Inl TypeError
      | JObj kvs \<Rightarrow> Inr (map_of kvs key)
      | _ \<Rightarrow> Inr None)"

text \<open>\<^verbatim>\<open>entry => entry.key === wanted\<close>\<close>

definition prop_is :: "string \<Rightarrow> string \<Rightarrow> json \<Rightarrow> error + bool" where
  "prop_is key wanted entry =
     (case get_prop entry key of
        Inl e \<Rightarrow> Inl e
      | Inr v \<Rightarrow> Inr (v = Some (JStr wanted)))"

fun some_entry :: "(json \<Rightarrow> error + bool) \<Rightarrow> json list \<Rightarrow> error + bool" where
  "some_entry f [] = Inr False"
| "some_entry f (x # xs) =
     (case f x of
        Inl e \<Rightarrow> Inl e
      | Inr b \<Rightarrow> (if b then Inr True else some_entry f xs))"

text \<open>\<^verbatim>\<open>logTrack.some(f)\<close>: a \<open>TypeError\<close> when the parsed log is not an array.\<close>

definition array_some :: "json \<Rightarrow> (json \<Rightarrow> error + bool) \<Rightarrow> error + bool" where
  "array_some logTrack f = (case logTrack of JArr xs \<Rightarrow> some_entry f xs | _ \<Rightarrow> Inl TypeError)"

text \<open>\<^verbatim>\<open>JSON.parse(fs.readFileSync(p, "utf-8"))\<close>\<close>

definition read_json :: "env \<Rightarrow> fsnode \<Rightarrow> path \<Rightarrow> error + json" where
  "read_json E root p =
     (case readFileSync root p of
        Inl e \<Rightarrow> Inl e
      | Inr text \<Rightarrow> (case JSON_parse E text of None \<Rightarrow> Inl SyntaxError | Some j \<Rightarrow> Inr j))"

text \<open>The body of the \<^verbatim>\<open>try\<close> of both checks: does an entry of the log have
  \<open>wanted\<close> under \<open>key\<close>?\<close>

definition log_has :: "env \<Rightarrow> fsnode \<Rightarrow> path \<Rightarrow> string \<Rightarrow> string \<Rightarrow> error + bool" where
  "log_has E root snapshotDir key wanted =
     (let logTrackPath = snapshotDir @ [''logTrack.json''] in
      if existsSync root logTrackPath then
        (case read_json E root logTrackPath of
           Inl e \<Rightarrow> Inl e
         | Inr logTrack \<Rightarrow> array_some logTrack (prop_is key wanted))
      else Inr False)"

definition isDuplicateName :: "env \<Rightarrow> path \<Rightarrow> string \<Rightarrow> state \<Rightarrow> state \<times> bool" where
  "isDuplicateName E snapshotDir snapshotName st =
     (case log_has E (fs st) snapshotDir ''treeName'' snapshotName of
        Inl e \<Rightarrow> (console_error (DuplicateNameCheckFailed e) st, True)
      | Inr b \<Rightarrow> (st, b))"

definition isDuplicateSHA :: "env \<Rightarrow> path \<Rightarrow> string \<Rightarrow> state \<Rightarrow> state \<times> bool" where
  "isDuplicateSHA E snapshotDir currentHash st =
     (case log_has E (fs st) snapshotDir ''SHA'' currentHash of
        Inl e \<Rightarrow> (console_error (DuplicateSHACheckFailed e) st, True)
      | Inr isUpToDate \<Rightarrow> (if isUpToDate then (console_log UpToDate st, True) else (st, False)))"

section \<open>The ignore list\<close>

definition is_space :: "char \<Rightarrow> bool" where
  "is_space c \<longleftrightarrow> c \<in> set [CHR '' '', CHR 0x09, CHR 0x0A, CHR 0x0B, CHR 0x0C, CHR 0x0D]"

definition trim :: "string \<Rightarrow> string" where
  "trim s = rev (dropWhile is_space (rev (dropWhile is_space s)))"

text \<open>\<^verbatim>\<open>s.split(c)\<close> for a one-character separator.\<close>

fun split_on :: "char \<Rightarrow> string \<Rightarrow> string list" where
  "split_on c [] = [[]]"
| "split_on c (x # xs) =
     (if x = c then [] # split_on c xs
      else (case split_on c xs of [] \<Rightarrow> [[x]] | l # ls \<Rightarrow> (x # l) # ls))"

text \<open>One line of the ignore file, added to the set built so far.\<close>

definition add_ignore_line :: "env \<Rightarrow> fsnode \<Rightarrow> string \<Rightarrow> string set \<Rightarrow> string set" where
  "add_ignore_line E root line ignoreList =
     (let trimmedLine = trim line in
      if trimmedLine \<noteq> [] then
        (if CHR ''*'' \<in> set trimmedLine then ignoreList \<union> set (glob_sync E trimmedLine root)
         else insert trimmedLine ignoreList)
      else ignoreList)"

definition getIgnoreList :: "env \<Rightarrow> fsnode \<Rightarrow> error + string set" where
  "getIgnoreList E root =
     (let subsysIgnorePath = [''.subsysignore''] in
      if existsSync root subsysIgnorePath then
        (case readFileSync root subsysIgnorePath of
           Inl e \<Rightarrow> Inl Error
         | Inr ignoreContent \<Rightarrow>
             Inr (fold (add_ignore_line E root) (split_on (CHR 0x0A) ignoreContent) {}))
      else Inr {})"

section \<open>Taking a snapshot\<close>

definition is_alnum :: "char \<Rightarrow> bool" where
  "is_alnum c \<longleftrightarrow>
     c \<in> set ''abcdefghijklmnopqrstuvwxyz'' \<or> c \<in> set ''ABCDEFGHIJKLMNOPQRSTUVWXYZ'' \<or>
     c \<in> set ''0123456789''"

definition toLowerCase :: "char \<Rightarrow> char" where
  "toLowerCase c =
     (case map_of (zip ''ABCDEFGHIJKLMNOPQRSTUVWXYZ'' ''abcdefghijklmnopqrstuvwxyz'') c of
        None \<Rightarrow> c
      | Some l \<Rightarrow> l)"

text \<open>\<^verbatim>\<open>s.replace(/[^a-zA-Z0-9]+/g, "-")\<close>: every maximal run of other characters becomes
  one hyphen.\<close>

function replace_runs :: "string \<Rightarrow> string" where
  "replace_runs [] = []"
| "replace_runs (c # cs) =
     (if is_alnum c then c # replace_runs cs
      else CHR ''-'' # replace_runs (dropWhile (\<lambda>x. \<not> is_alnum x) cs))"
  by pat_completeness auto
termination
  by (relation "measure length") (auto simp: length_dropWhile_le less_Suc_eq_le)

definition sanitize :: "string \<Rightarrow> string" where
  "sanitize snapshotName = map toLowerCase (replace_runs snapshotName)"

text \<open>What \<^verbatim>\<open>JSON.stringify\<close> is given: the properties of an object in the order the
  code sets them, \<^verbatim>\<open>children\<close> only where it is set.\<close>

fun json_of_tree :: "TreeObject \<Rightarrow> json" where
  "json_of_tree (TreeObject k n h cs) =
     JObj ([(''type'', JStr (kind_str k)), (''name'', JStr n), (''hash'', JStr h)] @
           (case cs of None \<Rightarrow> [] | Some xs \<Rightarrow> [(''children'', JArr (map json_of_tree xs))]))"

definition json_of_file :: "string \<times> string \<Rightarrow> json" where
  "json_of_file f = JObj [(''name'', JStr (fst f)), (''hash'', JStr (snd f))]"

definition json_of_snapshotData :: "TreeObject \<Rightarrow> (string \<times> string) list \<Rightarrow> json" where
  "json_of_snapshotData treeObject fileList =
     JObj [(''tree'', json_of_tree treeObject), (''files'', JArr (map json_of_file fileList))]"

definition json_of_logEntry :: "string \<Rightarrow> string \<Rightarrow> json" where
  "json_of_logEntry snapshotName sha = JObj [(''treeName'', JStr snapshotName), (''SHA'', JStr sha)]"

text \<open>The body of the \<^verbatim>\<open>try\<close> of \<^verbatim>\<open>snap\<close>: the artifact is written from
  \<^verbatim>\<open>snapshotData\<close> as it is at that point, then the log is read, extended and written
  back.\<close>

definition writeSnapshot ::
  "env \<Rightarrow> path \<Rightarrow> string \<Rightarrow> TreeObject \<Rightarrow> (string \<times> string) list \<Rightarrow> state \<Rightarrow> state \<times> (error + unit)"
where
  "writeSnapshot E snapshotDir snapshotName treeObject fileList st =
     (let snapshotFile = snapshotDir @ [snapshotName @ ''.gz''];
          serializedSnapshot = JSON_stringify E (json_of_snapshotData treeObject fileList);
          compressedSnapshot = gzipSync E serializedSnapshot
      in case writeFileSync snapshotFile compressedSnapshot st of
           (st1, Inl e) \<Rightarrow> (st1, Inl e)
         | (st1, Inr u) \<Rightarrow>
             (let logTrackPath = snapshotDir @ [''logTrack.json''] in
              case (if existsSync (fs st1) logTrackPath then read_json E (fs st1) logTrackPath
                    else Inr (JArr [])) of
                Inl e \<Rightarrow> (st1, Inl e)
              | Inr (JArr xs) \<Rightarrow>
                  writeFileSync logTrackPath
                    (JSON_stringify_pretty E
                       (JArr (xs @ [json_of_logEntry snapshotName (hash treeObject)]))) st1
              | Inr other \<Rightarrow> (st1, Inl TypeError)))"

text \<open>\<^verbatim>\<open>path.relative("", entryPath)\<close>, for a process whose working directory is
  \<^verbatim>\<open>cwd\<close> (the only caller passes \<^verbatim>\<open>process.cwd()\<close>).\<close>

fun relative :: "path \<Rightarrow> string" where
  "relative [] = []"
| "relative [x] = x"
| "relative (x # y # p) = x @ ''/'' @ relative (y # p)"

text \<open>Lines 257 to 267 of \<^verbatim>\<open>snap.ts\<close>, for a digest and the bytes to store: the shard
  directory is made when it is missing, and the object file is written.\<close>

definition put :: "path \<Rightarrow> string \<Rightarrow> string \<Rightarrow> state \<Rightarrow> state \<times> (error + unit)" where
  "put objectsDir digest bytes st =
     (let objectFile = objectsDir @ [take 2 digest, drop 2 digest] in
      case ensureDir (butlast objectFile) st of
        (st1, Inl e) \<Rightarrow> (st1, Inl e)
      | (st1, Inr u) \<Rightarrow> writeFileSync objectFile bytes st1)"

text \<open>
  \<^verbatim>\<open>processEntry(entryPath, "", objectsDir, treeObjects, snapshotData)\<close>.  It reads the
  file system while it writes to it, so it recurs on a bound of the depth it descends;
  the result is \<open>None\<close> when the bound is used up.  The state is returned in every case.
  \<open>processEntries\<close> is the loop over the entries of a directory.
\<close>

type_synonym collected = "TreeObject list \<times> (string \<times> string) list"

fun processEntry ::
  "nat \<Rightarrow> env \<Rightarrow> path \<Rightarrow> path \<Rightarrow> collected \<Rightarrow> state \<Rightarrow> state \<times> (error + collected) option"
  and processEntries ::
  "nat \<Rightarrow> env \<Rightarrow> path \<Rightarrow> string list \<Rightarrow> path \<Rightarrow> collected \<Rightarrow> state \<Rightarrow> state \<times> (error + collected) option"
where
  "processEntry 0 E entryPath objectsDir acc st = (st, None)"
| "processEntry (Suc n) E entryPath objectsDir acc st =
     (case lookup (fs st) entryPath of
        None \<Rightarrow> (st, Some (Inl ENOENT))
      | Some (File content) \<Rightarrow>
          (let fileHash = sha1_hex E content;
               objectFile = objectsDir @ [take 2 fileHash, drop 2 fileHash]
           in case ensureDir (butlast objectFile) st of
                (st1, Inl e) \<Rightarrow> (st1, Some (Inl e))
              | (st1, Inr u) \<Rightarrow>
                  (case readFileSync (fs st1) entryPath of
                     Inl e \<Rightarrow> (st1, Some (Inl e))
                   | Inr fileContent \<Rightarrow>
                       (case writeFileSync objectFile fileContent st1 of
                          (st2, Inl e) \<Rightarrow> (st2, Some (Inl e))
                        | (st2, Inr u) \<Rightarrow>
                            (st2, Some (Inr
                               (fst acc @ [TreeObject Blob (relative entryPath) fileHash None],
                                snd acc @ [(relative entryPath, fileHash)]))))))
      | Some (Dir es) \<Rightarrow>
          (case processEntries n E entryPath (map fst es) objectsDir ([], snd acc) st of
             (st1, Some (Inr (subTreeObjects, fileList))) \<Rightarrow>
               (st1, Some (Inr
                  (fst acc @ [TreeObject Tree (relative entryPath) [] (Some subTreeObjects)],
                   fileList)))
           | (st1, other) \<Rightarrow> (st1, other)))"
| "processEntries n E entryPath [] objectsDir acc st = (st, Some (Inr acc))"
| "processEntries n E entryPath (subEntry # rest) objectsDir acc st =
     (case processEntry n E (entryPath @ [subEntry]) objectsDir acc st of
        (st1, Some (Inr acc1)) \<Rightarrow> processEntries n E entryPath rest objectsDir acc1 st1
      | (st1, other) \<Rightarrow> (st1, other))"

text \<open>Lines 82 to 96: the two directories, the ignore list and the tree.\<close>

definition snap_prepare :: "env \<Rightarrow> state \<Rightarrow> state \<times> (error + TreeObject)" where
  "snap_prepare E st =
     (let subsysDir = [''.subsys''];
          snapshotDir = subsysDir @ [''snapshots''];
          objectsDir = subsysDir @ [''objects'']
      in case ensureDir snapshotDir st of
           (st1, Inl e) \<Rightarrow> (st1, Inl e)
         | (st1, Inr u) \<Rightarrow>
             (case ensureDir objectsDir st1 of
                (st2, Inl e) \<Rightarrow> (st2, Inl e)
              | (st2, Inr u) \<Rightarrow>
                  (case getIgnoreList E (fs st2) of
                     Inl e \<Rightarrow> (st2, Inl e)
                   | Inr ignoreList \<Rightarrow>
                       (case fs st2 of
                          File c \<Rightarrow> (st2, Inl ENOTDIR)
                        | Dir entries \<Rightarrow> (st2, Inr (calculateTreeHash E ignoreList entries))))))"

text \<open>
  \<^verbatim>\<open>snap(cwd, snapshotName)\<close>.  The result is \<open>Some (Inr ())\<close> when the function
  returns, \<open>Some (Inl e)\<close> when its promise is rejected, \<open>None\<close> when the bound given to
  \<open>processEntry\<close> is used up.  What \<^verbatim>\<open>processEntry\<close> collects and the root hash
  computed after it stay in memory and are dropped when the function returns.
\<close>

definition snap :: "env \<Rightarrow> nat \<Rightarrow> string \<Rightarrow> state \<Rightarrow> state \<times> (error + unit) option" where
  "snap E fuel snapshotName st =
     (let sanitizedSnapshotName = sanitize snapshotName in
      if sanitizedSnapshotName \<noteq> snapshotName then (console_error InvalidSlug st, Some (Inr ()))
      else
        (let snapshotDir = [''.subsys'', ''snapshots''];
             objectsDir = [''.subsys'', ''objects'']
         in case snap_prepare E st of
              (st2, Inl e) \<Rightarrow> (st2, Some (Inl e))
            | (st2, Inr treeObject) \<Rightarrow>
                (case isDuplicateName E snapshotDir sanitizedSnapshotName st2 of
                   (st3, True) \<Rightarrow> (console_error NameExists st3, Some (Inr ()))
                 | (st3, False) \<Rightarrow>
                     (case isDuplicateSHA E snapshotDir (hash treeObject) st3 of
                        (st4, True) \<Rightarrow> (console_error ContentExists st4, Some (Inr ()))
                      | (st4, False) \<Rightarrow>
                          (case writeSnapshot E snapshotDir sanitizedSnapshotName treeObject [] st4 of
                             (st5, Inl e) \<Rightarrow>
                               (console_error
                                  (SnapshotFileFailed (snapshotDir @ [sanitizedSnapshotName @ ''.gz'']) e)
                                  st5,
                                Some (Inr ()))
                           | (st5, Inr u) \<Rightarrow>
                               (case processEntry fuel E [] objectsDir
                                       (case children treeObject of None \<Rightarrow> [] | Some cs \<Rightarrow> cs, [])
                                       st5 of
                                  (st6, None) \<Rightarrow> (st6, None)
                                | (st6, Some (Inl e)) \<Rightarrow> (st6, Some (Inl e))
                                | (st6, Some (Inr collected)) \<Rightarrow>
                                    (console_log (SnapshotCreated sanitizedSnapshotName) st6,
                                     Some (Inr ()))))))))"

section \<open>Loading a snapshot\<close>

text \<open>The path as text, below \<^verbatim>\<open>cwd\<close>.\<close>

definition path_text :: "path \<Rightarrow> string" where
  "path_text p = concat (map (\<lambda>x. ''/'' @ x) p)"

text \<open>The body of the \<^verbatim>\<open>try\<close> of \<^verbatim>\<open>decompressSnapshot\<close>; \<open>JNull\<close> is
  \<^verbatim>\<open>null\<close>.\<close>

definition decompressSnapshot_try :: "env \<Rightarrow> fsnode \<Rightarrow> path \<Rightarrow> error + json" where
  "decompressSnapshot_try E root snapshotFile =
     (case lookup root snapshotFile of
        None \<Rightarrow> Inl ENOENT
      | Some fileStats \<Rightarrow>
          (if \<not> isFile fileStats \<or> \<not> suffix ''.gz'' (path_text snapshotFile) then Inr JNull
           else
             (case readFileSync root snapshotFile of
                Inl e \<Rightarrow> Inl e
              | Inr compressedSnapshot \<Rightarrow>
                  (case gunzipSync E compressedSnapshot of
                     None \<Rightarrow> Inl ZlibError
                   | Some decompressedSnapshot \<Rightarrow>
                       (case JSON_parse E decompressedSnapshot of
                          None \<Rightarrow> Inl SyntaxError
                        | Some j \<Rightarrow> Inr j)))))"

text \<open>\<^verbatim>\<open>decompressSnapshot(snapshotFile)\<close>: \<open>Inl\<close> would be an exception that reaches the
  caller.\<close>

definition decompressSnapshot :: "env \<Rightarrow> path \<Rightarrow> state \<Rightarrow> state \<times> (error + json)" where
  "decompressSnapshot E snapshotFile st =
     (case decompressSnapshot_try E (fs st) snapshotFile of
        Inl e \<Rightarrow> (console_error (DecompressFailed snapshotFile e) st, Inr JNull)
      | Inr j \<Rightarrow> (st, Inr j))"

section \<open>Recreating a tree\<close>



text \<open>\<^verbatim>\<open>path.join(base, ...parts)\<close>: the parts are cut at every \<^verbatim>\<open>/\<close>, empty
  segments and \<^verbatim>\<open>.\<close> are dropped, \<^verbatim>\<open>..\<close> removes the last component.  The root of
  the model has no parent.\<close>

fun normalize :: "string list \<Rightarrow> path \<Rightarrow> path" where
  "normalize [] p = p"
| "normalize (s # ss) p =
     (if s = [] \<or> s = ''.'' then normalize ss p
      else if s = ''..'' then normalize ss (butlast p)
      else normalize ss (p @ [s]))"

definition path_join :: "path \<Rightarrow> string list \<Rightarrow> path" where
  "path_join base parts = normalize (concat (map (split_on CHR ''/'') parts)) base"







section \<open>Auxiliary notions for the proofs\<close>

text \<open>The objects below a list of tree objects.\<close>

definition below :: "TreeObject list \<Rightarrow> TreeObject set" where
  "below xs = (\<Union>x \<in> set xs. set (nodes x))"

text \<open>The child object \<open>treeChildren\<close> makes of one entry.\<close>

definition child_of :: "env \<Rightarrow> string set \<Rightarrow> string \<times> fsnode \<Rightarrow> TreeObject" where
  "child_of E ign e =
     (case snd e of
        File content \<Rightarrow> TreeObject Blob (fst e) (sha1_hex E content) None
      | Dir sub \<Rightarrow> TreeObject Tree (fst e) (hash (calculateTreeHash E ign sub))
                     (children (calculateTreeHash E ign sub)))"

text \<open>Comparison of the bytes, as a comparison function.\<close>

definition byteCompare :: "string \<Rightarrow> string \<Rightarrow> int" where
  "byteCompare a b = (if a < b then - 1 else if a = b then 0 else 1)"

section \<open>An environment to run the model in\<close>

text \<open>
  Stand-ins for the platform functions, so that the model can be run on examples: the
  digest of a string is three running checksums of its bytes and its length, written as eight hexadecimal digits, names are compared by their bytes, a pattern \<^verbatim>\<open>*suffix\<close> matches the
  entries of the directory that end with the suffix, JSON text is written without white
  space and read back from a table, and compressing puts \<^verbatim>\<open>gz:\<close> in front.
\<close>

definition hexdigit :: "nat \<Rightarrow> char" where
  "hexdigit n = ''0123456789abcdef'' ! n"

definition hex2 :: "nat \<Rightarrow> string" where
  "hex2 n = [hexdigit (n div 16), hexdigit (n mod 16)]"

fun mix :: "string \<Rightarrow> nat \<Rightarrow> nat \<Rightarrow> nat \<Rightarrow> nat \<Rightarrow> string" where
  "mix [] a b c l = hex2 a @ hex2 b @ hex2 c @ hex2 l"
| "mix (x # xs) a b c l =
     mix xs ((a + of_char x) mod 251) ((b + a + of_char x) mod 251)
       ((c + b + a + of_char x) mod 251) ((l + 1) mod 256)"

definition toy_digest :: "string \<Rightarrow> string" where
  "toy_digest s = mix s 1 2 3 0"

definition toy_glob :: "string \<Rightarrow> fsnode \<Rightarrow> string list" where
  "toy_glob pattern root =
     (case (pattern, root) of
        (c # suf, Dir es) \<Rightarrow>
          (if c = CHR ''*'' \<and> CHR ''*'' \<notin> set suf \<and> CHR ''/'' \<notin> set suf
           then filter (suffix suf) (map fst es) else [])
      | _ \<Rightarrow> [])"

text \<open>The decimal digits of a number that has at most \<open>k\<close> of them.\<close>

fun digits :: "nat \<Rightarrow> nat \<Rightarrow> string" where
  "digits 0 n = []"
| "digits (Suc k) n =
     (if n < 10 then [''0123456789'' ! n]
      else digits k (n div 10) @ [''0123456789'' ! (n mod 10)])"

fun render :: "json \<Rightarrow> string"
  and render_list :: "json list \<Rightarrow> string"
  and render_fields :: "(string \<times> json) list \<Rightarrow> string"
where
  "render JNull = ''null''"
| "render (JBool b) = (if b then ''true'' else ''false'')"
| "render (JNum i) = (if i < 0 then ''-'' else []) @ digits (Suc (nat \<bar>i\<bar>)) (nat \<bar>i\<bar>)"
| "render (JStr s) = [CHR 0x22] @ s @ [CHR 0x22]"
| "render (JArr xs) = ''['' @ render_list xs @ '']''"
| "render (JObj kvs) = ''{'' @ render_fields kvs @ ''}''"
| "render_list [] = []"
| "render_list [x] = render x"
| "render_list (x # y # ys) = render x @ '','' @ render_list (y # ys)"
| "render_fields [] = []"
| "render_fields [(k, v)] = [CHR 0x22] @ k @ [CHR 0x22] @ '':'' @ render v"
| "render_fields ((k, v) # kv # kvs) =
     [CHR 0x22] @ k @ [CHR 0x22] @ '':'' @ render v @ '','' @ render_fields (kv # kvs)"

text \<open>The logs the examples read.\<close>

definition known_logs :: "json list" where
  "known_logs =
     [JArr [],
      JArr [json_of_logEntry ''v1'' ''2fe9942e'']]"

definition toy_parse :: "string \<Rightarrow> json option" where
  "toy_parse text = map_of (map (\<lambda>j. (render j, j)) known_logs) text"

definition toy_gunzip :: "string \<Rightarrow> string option" where
  "toy_gunzip s = (if prefix ''gz:'' s then Some (drop 3 s) else None)"

definition E0 :: env where
  "E0 = \<lparr> sha1_hex = toy_digest, localeCompare = byteCompare, glob_sync = toy_glob,
          JSON_parse = toy_parse, JSON_stringify = render, JSON_stringify_pretty = render,
          gzipSync = (\<lambda>s. ''gz:'' @ s), gunzipSync = toy_gunzip \<rparr>"

text \<open>A directory to take snapshots of.\<close>

definition project :: "(string \<times> fsnode) list" where
  "project =
     [(''node_modules'', Dir [(''x.js'', File ''x'')]),
      (''b.txt'', File ''hello''),
      (''src'', Dir [(''config.json'', File ''{}''), (''a.txt'', File ''hi'')]),
      (''.subsys'', Dir [])]"

text \<open>
  A comparison that honours canonical equivalence, as \<^verbatim>\<open>localeCompare\<close> has to: the
  letter e with acute accent as one code point (U+00E9, bytes C3 A9) and as e followed by
  the combining accent (U+0065 U+0301, bytes 65 CC 81) compare equal; all other names
  are compared by their bytes.
\<close>

definition e_acute_composed :: string where
  "e_acute_composed = [CHR 0xC3, CHR 0xA9]"

definition e_acute_decomposed :: string where
  "e_acute_decomposed = [CHR 0x65, CHR 0xCC, CHR 0x81]"

definition decompose :: "string \<Rightarrow> string" where
  "decompose s = (if s = e_acute_composed then e_acute_decomposed else s)"

definition canonCompare :: "string \<Rightarrow> string \<Rightarrow> int" where
  "canonCompare a b = byteCompare (decompose a) (decompose b)"

definition E_canon :: env where
  "E_canon = E0\<lparr>localeCompare := canonCompare\<rparr>"

text \<open>A directory with the one spelling at the top and the other in a subdirectory, and the
  same directory with its entries listed in another order at both levels.\<close>

definition accented :: "(string \<times> fsnode) list" where
  "accented =
     [(''f.txt'', File ''hello''),
      (e_acute_composed, File ''1''),
      (''src'', Dir [(e_acute_decomposed, File ''2''), (''a.txt'', File ''hi'')])]"

definition accented_relisted :: "(string \<times> fsnode) list" where
  "accented_relisted =
     [(''src'', Dir [(''a.txt'', File ''hi''), (e_acute_decomposed, File ''2'')]),
      (e_acute_composed, File ''1''),
      (''f.txt'', File ''hello'')]"

section \<open>Notions for the frame properties\<close>

text \<open>The path an event creates or writes.\<close>

definition touched :: "event \<Rightarrow> path option" where
  "touched e = (case e of Mkdir p \<Rightarrow> Some p | WriteFile p b \<Rightarrow> Some p | _ \<Rightarrow> None)"

text \<open>The content of the regular file at a path.\<close>

definition file_at :: "fsnode \<Rightarrow> path \<Rightarrow> string option" where
  "file_at root p = (case lookup root p of Some (File c) \<Rightarrow> Some c | _ \<Rightarrow> None)"

text \<open>
  A run from \<open>st\<close> to \<open>st'\<close> writes within \<open>P\<close>: it only adds events, every path
  it creates or writes satisfies \<open>P\<close>, and what is found at a path that is not a prefix of
  a path in \<open>P\<close> is the same before and after.
\<close>

definition writes_within :: "(path \<Rightarrow> bool) \<Rightarrow> state \<Rightarrow> state \<Rightarrow> bool" where
  "writes_within P st st' \<longleftrightarrow>
     (\<exists>evs. trace st' = trace st @ evs \<and> (\<forall>e \<in> set evs. \<forall>p. touched e = Some p \<longrightarrow> P p)) \<and>
     (\<forall>q. (\<forall>p. P p \<longrightarrow> \<not> prefix q p) \<longrightarrow> lookup (fs st') q = lookup (fs st) q)"

text \<open>The paths in the snapshots folder and in the object store.\<close>

definition in_metadata :: "path \<Rightarrow> bool" where
  "in_metadata p \<longleftrightarrow> prefix [''.subsys'', ''snapshots''] p \<or> prefix [''.subsys'', ''objects''] p"

text \<open>The paths in the object store.\<close>

definition in_objects :: "path \<Rightarrow> bool" where
  "in_objects p \<longleftrightarrow> prefix [''.subsys'', ''objects''] p"

text \<open>A run that makes directories and prints, and leaves every file as it is.\<close>

definition no_file_written :: "state \<Rightarrow> state \<Rightarrow> bool" where
  "no_file_written st st' \<longleftrightarrow>
     (\<exists>evs. trace st' = trace st @ evs \<and> (\<forall>p b. WriteFile p b \<notin> set evs)) \<and>
     (\<forall>q. file_at (fs st') q = file_at (fs st) q)"

section \<open>Restoring: what the tree pass is to do\<close>





text \<open>A path beside the object store, and a state whose object store is that of
  \<open>root0\<close>.\<close>

definition apart :: "path \<Rightarrow> bool" where
  "apart p \<longleftrightarrow> \<not> prefix p [''.subsys'', ''objects''] \<and> \<not> prefix [''.subsys'', ''objects''] p"









section \<open>Example states\<close>

definition store_with_object :: state where
  "store_with_object =
     \<lparr>fs = Dir [(''.subsys'', Dir [(''objects'', Dir [(''d2'', Dir [(''42b002'', File ''hi'')])])])],
      trace = []\<rparr>"

definition store_with_cut_object :: state where
  "store_with_cut_object =
     \<lparr>fs = Dir [(''.subsys'', Dir [(''objects'', Dir [(''d2'', Dir [(''42b002'', File ''h'')])])])],
      trace = []\<rparr>"

definition empty_store :: state where
  "empty_store = \<lparr>fs = Dir [(''.subsys'', Dir [(''objects'', Dir [])])], trace = []\<rparr>"

definition repo_with_broken_log :: state where
  "repo_with_broken_log =
     \<lparr>fs = Dir [(''a.txt'', File ''hi''),
                (''.subsys'', Dir [(''snapshots'', Dir [(''logTrack.json'', File ''[{'')]),
                                   (''objects'', Dir [])])],
      trace = []\<rparr>"

definition repo_with_artifact :: state where
  "repo_with_artifact =
     \<lparr>fs = Dir [(''.subsys'', Dir [(''snapshots'', Dir [(''v1.gz'', File ''gz:[]''),
                                                          (''v2.gz'', File ''[]''),
                                                          (''notes.txt'', File ''gz:[]'')]),
                                   (''objects'', Dir [])])],
      trace = []\<rparr>"


text \<open>A working directory with an ignore file, the tree \<^verbatim>\<open>snap\<close> computes for it, the
  artifact and the log it writes, and the state after the snapshot \<^verbatim>\<open>v1\<close>.\<close>

definition ignore_text :: string where
  "ignore_text = ''secret.env'' @ [CHR 0x0A] @ ''*.log''"

definition workdir :: state where
  "workdir =
     \<lparr>fs = Dir [(''.subsysignore'', File ignore_text),
                (''secret.env'', File ''KEY=1''),
                (''debug.log'', File ''trace''),
                (''a.txt'', File ''hi'')],
      trace = []\<rparr>"

definition workdir_tree :: TreeObject where
  "workdir_tree =
     TreeObject Tree [] ''2fe9942e''
       (Some [TreeObject Blob ''.subsysignore'' ''bb6a8710'' None,
              TreeObject Blob ''a.txt'' ''d242b002'' None])"

definition workdir_artifact :: string where
  "workdir_artifact = gzipSync E0 (JSON_stringify E0 (json_of_snapshotData workdir_tree []))"

definition workdir_log :: string where
  "workdir_log = JSON_stringify_pretty E0 (JArr [json_of_logEntry ''v1'' ''2fe9942e''])"

definition workdir_after :: state where
  "workdir_after =
     \<lparr>fs = Dir [(''.subsysignore'', File ignore_text),
                (''secret.env'', File ''KEY=1''),
                (''debug.log'', File ''trace''),
                (''a.txt'', File ''hi''),
                (''.subsys'',
                 Dir [(''snapshots'',
                       Dir [(''v1.gz'', File workdir_artifact),
                            (''logTrack.json'', File workdir_log)]),
                      (''objects'',
                       Dir [(''bb'', Dir [(''6a8710'', File ignore_text)]),
                            (''5d'', Dir [(''5c6305'', File ''KEY=1'')]),
                            (''1a'', Dir [(''7f7b05'', File ''trace'')]),
                            (''d2'', Dir [(''42b002'', File ''hi'')]),
                            (''14'', Dir [(''b6b0b9'', File workdir_artifact)]),
                            (''81'', Dir [(''ca5524'', File workdir_log)])])])],
      trace =
        [Mkdir [''.subsys'', ''snapshots''],
         Mkdir [''.subsys'', ''objects''],
         WriteFile [''.subsys'', ''snapshots'', ''v1.gz''] workdir_artifact,
         WriteFile [''.subsys'', ''snapshots'', ''logTrack.json''] workdir_log,
         Mkdir [''.subsys'', ''objects'', ''bb''],
         WriteFile [''.subsys'', ''objects'', ''bb'', ''6a8710''] ignore_text,
         Mkdir [''.subsys'', ''objects'', ''5d''],
         WriteFile [''.subsys'', ''objects'', ''5d'', ''5c6305''] ''KEY=1'',
         Mkdir [''.subsys'', ''objects'', ''1a''],
         WriteFile [''.subsys'', ''objects'', ''1a'', ''7f7b05''] ''trace'',
         Mkdir [''.subsys'', ''objects'', ''d2''],
         WriteFile [''.subsys'', ''objects'', ''d2'', ''42b002''] ''hi'',
         Mkdir [''.subsys'', ''objects'', ''14''],
         WriteFile [''.subsys'', ''objects'', ''14'', ''b6b0b9''] workdir_artifact,
         Mkdir [''.subsys'', ''objects'', ''81''],
         WriteFile [''.subsys'', ''objects'', ''81'', ''ca5524''] workdir_log,
         WriteFile [''.subsys'', ''objects'', ''bb'', ''6a8710''] ignore_text,
         WriteFile [''.subsys'', ''objects'', ''5d'', ''5c6305''] ''KEY=1'',
         WriteFile [''.subsys'', ''objects'', ''1a'', ''7f7b05''] ''trace'',
         WriteFile [''.subsys'', ''objects'', ''d2'', ''42b002''] ''hi'',
         WriteFile [''.subsys'', ''objects'', ''14'', ''b6b0b9''] workdir_artifact,
         WriteFile [''.subsys'', ''objects'', ''81'', ''ca5524''] workdir_log,
         ConsoleLog (SnapshotCreated ''v1'')]\<rparr>"





section \<open>Properties of the tree hasher\<close>


lemma mset_insort_by: "mset (insort_by cmp x xs) = add_mset x (mset xs)"
  by (induction xs) auto

lemma mset_sort_by: "mset (sort_by cmp xs) = mset xs"
  by (induction xs) (auto simp: sort_by_def mset_insort_by)

lemma set_sort_by: "set (sort_by cmp xs) = set xs"
  by (metis mset_sort_by set_mset_mset)

lemma children_calculateTreeHash:
  "children (calculateTreeHash E ign es) =
     Some (sort_by (\<lambda>a b. localeCompare E (name a) (name b)) (treeChildren E ign es))"
  by (simp add: Let_def)

lemma name_calculateTreeHash: "name (calculateTreeHash E ign es) = []"
  by (simp add: Let_def)

lemma below_simps:
  "below [] = {}"
  "below (x # xs) = set (nodes x) \<union> below xs"
  by (auto simp: below_def)

lemma below_sort_by: "below (sort_by cmp xs) = below xs"
  by (simp add: below_def set_sort_by)

lemma set_concat_nodes: "set (concat (map nodes xs)) = below xs"
  by (auto simp: below_def)

lemma nodes_unfold:
  "set (nodes t) = insert t (case children t of None \<Rightarrow> {} | Some xs \<Rightarrow> below xs)"
  by (cases t) (auto simp: below_def split: option.splits)

lemma not_skipped_aux:
  shows "\<forall>u. u \<in> below (sort_by (\<lambda>a b. localeCompare E (name a) (name b)) (treeChildren E ign es))
          \<longrightarrow> \<not> skipped ign (name u)"
    and "\<forall>u. u \<in> below (treeChildren E ign es) \<longrightarrow> \<not> skipped ign (name u)"
proof (induction E ign es and E ign es rule: calculateTreeHash_treeChildren.induct)
  case (1 E ignoreList entries)
  then show ?case by (simp add: below_sort_by)
next
  case (2 E ignoreList)
  then show ?case by (simp add: below_simps)
next
  case (3 E ignoreList entry node rest)
  show ?case
  proof (cases "skipped ignoreList entry")
    case True
    with 3 show ?thesis by simp
  next
    case False
    note ns = False
    show ?thesis
    proof (cases node)
      case (File c)
      with 3 ns show ?thesis by (auto simp: below_simps)
    next
      case (Dir sub)
      with 3 ns show ?thesis
        by (auto simp: below_def children_calculateTreeHash
            simp del: calculateTreeHash.simps)
    qed
  qed
qed

lemma treeChildren_not_skipped:
  "u \<in> below (treeChildren E ign es) \<Longrightarrow> \<not> skipped ign (name u)"
  using not_skipped_aux(2) by blast

lemma nodes_calculateTreeHash:
  "set (nodes (calculateTreeHash E ign es)) =
     insert (calculateTreeHash E ign es) (below (treeChildren E ign es))"
  by (simp add: nodes_unfold children_calculateTreeHash below_sort_by del: calculateTreeHash.simps)

lemma treeChildren_map_filter:
  "treeChildren E ign es = map (child_of E ign) (filter (\<lambda>e. \<not> skipped ign (fst e)) es)"
  by (induction es) (auto simp: child_of_def simp del: calculateTreeHash.simps split: fsnode.splits)

lemma name_child_of: "name (child_of E ign e) = fst e"
  by (simp add: child_of_def split: fsnode.splits)

lemma names_treeChildren:
  "map name (treeChildren E ign es) = filter (\<lambda>n. \<not> skipped ign n) (map fst es)"
  by (simp add: treeChildren_map_filter name_child_of filter_map comp_def)

lemma set_insort_by: "set (insort_by cmp x xs) = insert x (set xs)"
  by (induction xs) auto

lemma sorted_wrt_insort_by:
  assumes tot: "\<forall>a b. cmp a b \<le> 0 \<or> cmp b a \<le> 0"
    and trans: "\<forall>a b c. cmp a b \<le> 0 \<and> cmp b c \<le> 0 \<longrightarrow> cmp a c \<le> 0"
  shows "sorted_wrt (\<lambda>a b. cmp a b \<le> 0) xs \<Longrightarrow> sorted_wrt (\<lambda>a b. cmp a b \<le> (0::int)) (insort_by cmp x xs)"
proof (induction xs)
  case Nil
  then show ?case by simp
next
  case (Cons y ys)
  have tail: "sorted_wrt (\<lambda>a b. cmp a b \<le> 0) ys" and head: "\<forall>z \<in> set ys. cmp y z \<le> 0"
    using Cons.prems by simp_all
  show ?case
  proof (cases "cmp x y \<le> 0")
    case True
    have "\<forall>z \<in> set ys. cmp x z \<le> 0"
    proof
      fix z assume "z \<in> set ys"
      with head have "cmp y z \<le> 0" by blast
      with True trans show "cmp x z \<le> 0" by blast
    qed
    with True Cons.prems show ?thesis by simp
  next
    case False
    with tot have yx: "cmp y x \<le> 0" by blast
    have "sorted_wrt (\<lambda>a b. cmp a b \<le> 0) (insort_by cmp x ys)"
      using tail by (rule Cons.IH)
    with False yx head show ?thesis by (simp add: set_insort_by)
  qed
qed

lemma sorted_wrt_sort_by:
  assumes "\<forall>a b. cmp a b \<le> 0 \<or> cmp b a \<le> 0"
    and "\<forall>a b c. cmp a b \<le> 0 \<and> cmp b c \<le> 0 \<longrightarrow> cmp a c \<le> 0"
  shows "sorted_wrt (\<lambda>a b. cmp a b \<le> (0::int)) (sort_by cmp xs)"
proof (induction xs)
  case Nil
  then show ?case by (simp add: sort_by_def)
next
  case (Cons x xs)
  then show ?case
    using sorted_wrt_insort_by [OF assms] by (simp add: sort_by_def)
qed

lemma sorted_wrt_unique:
  "sorted_wrt R xs \<Longrightarrow> sorted_wrt R ys \<Longrightarrow> mset xs = mset ys \<Longrightarrow>
   (\<forall>a \<in> set xs. \<forall>b \<in> set xs. R a b \<and> R b a \<longrightarrow> a = b) \<Longrightarrow> xs = ys"
proof (induction xs arbitrary: ys)
  case Nil
  then show ?case by simp
next
  case (Cons x xs)
  from Cons.prems(3) obtain y ys' where ys: "ys = y # ys'" by (cases ys) auto
  have sets: "set (x # xs) = set (y # ys')"
    using mset_eq_setD [OF Cons.prems(3)] ys by simp
  have "x = y"
  proof (rule ccontr)
    assume ne: "x \<noteq> y"
    with sets have "x \<in> set ys'" "y \<in> set xs" by auto
    with Cons.prems(1,2) ys have "R y x" "R x y" by auto
    moreover have "x \<in> set (x # xs)" "y \<in> set (x # xs)" using sets by auto
    ultimately show False using Cons.prems(4) ne by blast
  qed
  moreover have "xs = ys'"
  proof (rule Cons.IH)
    show "sorted_wrt R xs" using Cons.prems(1) by simp
    show "sorted_wrt R ys'" using Cons.prems(2) ys by simp
    show "mset xs = mset ys'" using Cons.prems(3) ys \<open>x = y\<close> by simp
    show "\<forall>a\<in>set xs. \<forall>b\<in>set xs. R a b \<and> R b a \<longrightarrow> a = b" using Cons.prems(4) by simp
  qed
  ultimately show ?case using ys by simp
qed

lemma sort_by_name_unique:
  assumes ord: "preorders_names cmp"
    and apart: "\<forall>a \<in> set (map name xs). \<forall>b \<in> set (map name xs). cmp a b \<le> 0 \<and> cmp b a \<le> 0 \<longrightarrow> a = b"
    and d: "distinct (map name xs)"
    and m: "mset xs = mset ys"
  shows "sort_by (\<lambda>a b. cmp (name a) (name b)) xs = sort_by (\<lambda>a b. cmp (name a) (name b)) ys"
proof -
  let ?c = "\<lambda>a b. cmp (name a) (name b)"
  have tot: "\<forall>a b. ?c a b \<le> 0 \<or> ?c b a \<le> 0"
    using ord unfolding preorders_names_def by blast
  have trans: "\<forall>a b c. ?c a b \<le> 0 \<and> ?c b c \<le> 0 \<longrightarrow> ?c a c \<le> 0"
    using ord unfolding preorders_names_def by blast
  have inj: "inj_on name (set xs)" using d by (simp add: distinct_map)
  have anti: "\<forall>a \<in> set (sort_by ?c xs). \<forall>b \<in> set (sort_by ?c xs).
               ?c a b \<le> 0 \<and> ?c b a \<le> 0 \<longrightarrow> a = b"
  proof (intro ballI impI)
    fix a b assume ab: "a \<in> set (sort_by ?c xs)" "b \<in> set (sort_by ?c xs)"
      and le: "?c a b \<le> 0 \<and> ?c b a \<le> 0"
    from ab have mem: "a \<in> set xs" "b \<in> set xs" by (simp_all add: set_sort_by)
    then have "name a \<in> set (map name xs)" "name b \<in> set (map name xs)" by simp_all
    with le apart have "name a = name b" by blast
    with mem inj show "a = b" by (simp add: inj_on_def)
  qed
  show ?thesis
    by (rule sorted_wrt_unique [where R = "\<lambda>a b. ?c a b \<le> 0"])
      (simp_all add: sorted_wrt_sort_by [OF tot trans] mset_sort_by m anti)
qed

lemma map_of_reorder:
  assumes d: "distinct (map fst gs)" and m: "mset ns = mset (map fst gs)"
  shows "mset (map (\<lambda>n. (n, the (map_of gs n))) ns) = mset gs"
proof -
  have "mset (map (\<lambda>n. (n, the (map_of gs n))) ns)
      = image_mset (\<lambda>n. (n, the (map_of gs n))) (mset ns)"
    by simp
  also have "\<dots> = image_mset (\<lambda>n. (n, the (map_of gs n))) (mset (map fst gs))"
    by (simp only: m)
  also have "\<dots> = mset (map (\<lambda>g. (fst g, the (map_of gs (fst g)))) gs)"
    by (simp add: comp_def multiset.map_comp)
  also have "map (\<lambda>g. (fst g, the (map_of gs (fst g)))) gs = gs"
  proof (rule map_idI)
    fix g assume "g \<in> set gs"
    then have "map_of gs (fst g) = Some (snd g)" using d by simp
    then show "(fst g, the (map_of gs (fst g))) = g" by simp
  qed
  finally show ?thesis .
qed

lemma mset_map_filter_cong:
  "mset xs = mset ys \<Longrightarrow> mset (map f (filter P xs)) = mset (map f (filter P ys))"
  by simp

lemma reordered_calc:
  assumes ord: "preorders_names (localeCompare E)"
  shows "wf_fs x \<Longrightarrow> wf_fs y \<Longrightarrow> reordered x y \<Longrightarrow> told_apart (localeCompare E) x \<Longrightarrow>
         child_of E ign (n, x) = child_of E ign (n, y)"
proof (induction x arbitrary: y n)
  case (File c)
  then show ?case by (cases y) (simp_all add: child_of_def)
next
  case (Dir es)
  from Dir.prems(3) obtain gs where y: "y = Dir gs" by (cases y) simp_all
  let ?keep = "\<lambda>e::string \<times> fsnode. \<not> skipped ign (fst e)"
  let ?es' = "map (\<lambda>n. (n, the (map_of gs n))) (map fst es)"
  have d_es: "distinct (map fst es)" and d_gs: "distinct (map fst gs)"
    using Dir.prems(1,2) y by simp_all
  have names: "mset (map fst es) = mset (map fst gs)"
    using Dir.prems(3) y by simp
  have perm: "mset ?es' = mset gs"
    by (rule map_of_reorder [OF d_gs names])
  have pointwise: "child_of E ign e = child_of E ign (fst e, the (map_of gs (fst e)))"
    if e: "e \<in> set es" for e
  proof -
    from Dir.prems(3) y e obtain z where z: "map_of gs (fst e) = Some z" "reordered (snd e) z"
      by (auto split: option.splits)
    then have "(fst e, z) \<in> set gs" by (simp add: map_of_SomeD)
    then have "wf_fs z" using Dir.prems(2) y by auto
    moreover have "wf_fs (snd e)" using Dir.prems(1) e by auto
    moreover have "told_apart (localeCompare E) (snd e)" using Dir.prems(4) e by simp
    moreover have "snd e \<in> Basic_BNFs.snds e" by (cases e) simp
    ultimately have "child_of E ign (fst e, snd e) = child_of E ign (fst e, z)"
      using Dir.IH [OF e _ _ _ z(2)] by blast
    with z show ?thesis by simp
  qed
  have aux: "\<forall>e \<in> set xs. child_of E ign e = child_of E ign (fst e, the (map_of gs (fst e)))
      \<Longrightarrow> map (child_of E ign) (filter ?keep xs)
        = map (child_of E ign) (filter ?keep (map (\<lambda>n. (n, the (map_of gs n))) (map fst xs)))" for xs
    by (induction xs) auto
  have "treeChildren E ign es = map (child_of E ign) (filter ?keep ?es')"
    unfolding treeChildren_map_filter using pointwise by (intro aux) blast
  also have "mset \<dots> = mset (map (child_of E ign) (filter ?keep gs))"
    by (rule mset_map_filter_cong [OF perm])
  finally have m: "mset (treeChildren E ign es) = mset (treeChildren E ign gs)"
    by (simp add: treeChildren_map_filter)
  have dn: "distinct (map name (treeChildren E ign es))"
    using d_es by (simp add: names_treeChildren)
  have ap: "\<forall>a \<in> set (map name (treeChildren E ign es)). \<forall>b \<in> set (map name (treeChildren E ign es)).
              localeCompare E a b \<le> 0 \<and> localeCompare E b a \<le> 0 \<longrightarrow> a = b"
    using Dir.prems(4) unfolding names_treeChildren by auto
  have "calculateTreeHash E ign es = calculateTreeHash E ign gs"
    using sort_by_name_unique [OF ord ap dn m] by (simp add: Let_def)
  then show ?case by (simp add: child_of_def y)
qed

lemma reordered_wf: "wf_fs x \<Longrightarrow> reordered x y \<Longrightarrow> wf_fs y"
proof (induction x arbitrary: y)
  case (File c)
  then show ?case by (cases y) simp_all
next
  case (Dir es)
  from Dir.prems(2) obtain gs where y: "y = Dir gs" by (cases y) simp_all
  have names: "mset (map fst es) = mset (map fst gs)"
    using Dir.prems(2) y by simp
  have d_gs: "distinct (map fst gs)"
    using Dir.prems(1) mset_eq_imp_distinct_iff [OF names] by simp
  have "wf_fs (snd g)" if g: "g \<in> set gs" for g
  proof -
    have "fst g \<in> set (map fst es)"
      using g mset_eq_setD [OF names] by auto
    then obtain e where e: "e \<in> set es" "fst e = fst g" by auto
    from g d_gs have "map_of gs (fst g) = Some (snd g)" by simp
    with Dir.prems(2) y e have "reordered (snd e) (snd g)"
      by (auto split: option.splits)
    moreover have "wf_fs (snd e)" using Dir.prems(1) e by auto
    moreover have "snd e \<in> Basic_BNFs.snds e" by (cases e) simp
    ultimately show ?thesis using Dir.IH [OF e(1)] by blast
  qed
  with d_gs y show ?case by simp
qed


lemma preorders_names_canonCompare: "preorders_names canonCompare"
  unfolding preorders_names_def canonCompare_def byteCompare_def by (auto simp: not_less)

text \<open>
  Claim C10.  In every directory, at every depth, the tree hasher skips the entries named
  \<^verbatim>\<open>node_modules\<close>, \<^verbatim>\<open>.subsys\<close> and \<^verbatim>\<open>config.json\<close>, whatever the ignore list holds:
  no object of the tree it returns has one of these names.
\<close>

theorem tree_hasher_fixed_exclusions:
  "\<forall>u \<in> set (nodes (calculateTreeHash E ignoreList entries)).
     name u \<notin> {''node_modules'', ''.subsys'', ''config.json''}"
proof
  fix u assume "u \<in> set (nodes (calculateTreeHash E ignoreList entries))"
  then consider "u = calculateTreeHash E ignoreList entries"
    | "u \<in> below (treeChildren E ignoreList entries)"
    by (auto simp: nodes_calculateTreeHash simp del: calculateTreeHash.simps)
  then show "name u \<notin> {''node_modules'', ''.subsys'', ''config.json''}"
  proof cases
    case 1
    then show ?thesis by (simp add: Let_def)
  next
    case 2
    then have "\<not> skipped ignoreList (name u)" by (rule treeChildren_not_skipped)
    then show ?thesis by (auto simp: skipped_def)
  qed
qed

text \<open>The tree of the example directory has the object of \<^verbatim>\<open>src/a.txt\<close>, and none of its
  objects has an excluded name.\<close>

theorem tree_hasher_fixed_exclusions_witness:
  "TreeObject Blob ''a.txt'' ''d242b002'' None \<in> set (nodes (calculateTreeHash E0 {} project)) \<and>
   name (TreeObject Blob ''a.txt'' ''d242b002'' None) \<notin> {''node_modules'', ''.subsys'', ''config.json''}"
proof -
  have mem: "TreeObject Blob ''a.txt'' ''d242b002'' None \<in> set (nodes (calculateTreeHash E0 {} project))"
    by (simp add: project_def E0_def skipped_def sort_by_def byteCompare_def
        toy_digest_def hexdigit_def hex2_def Let_def)
  have ex: "name (TreeObject Blob ''a.txt'' ''d242b002'' None)
              \<notin> {''node_modules'', ''.subsys'', ''config.json''}"
    using tree_hasher_fixed_exclusions [of E0 "{}" project] mem by (rule bspec)
  show ?thesis by (rule conjI [OF mem ex])
qed

text \<open>
  Claim C3, as amended.  The children of a directory are sorted with
  \<^verbatim>\<open>localeCompare\<close> before they are hashed.  For a comparison that sorts (of two names
  one does not come after the other, transitively) and a tree in which no directory has two
  different entry names that the comparison takes for equal, the tree object and so the
  root digest are the same for every order in which the directories of the tree are listed.
\<close>

theorem tree_hash_listing_order_invariant:
  assumes "preorders_names (localeCompare E)"
    and "told_apart (localeCompare E) (Dir D)"
    and "wf_fs (Dir D)"
    and "reordered (Dir D) (Dir D')"
  shows "hash (calculateTreeHash E ignoreList D) = hash (calculateTreeHash E ignoreList D')
       \<and> calculateTreeHash E ignoreList D = calculateTreeHash E ignoreList D'"
proof -
  have "wf_fs (Dir D')" using assms(3,4) by (rule reordered_wf)
  with assms have "child_of E ignoreList ([], Dir D) = child_of E ignoreList ([], Dir D')"
    by (intro reordered_calc)
  then have "calculateTreeHash E ignoreList D = calculateTreeHash E ignoreList D'"
    by (simp add: child_of_def Let_def)
  then show ?thesis by simp
qed

text \<open>A comparison that takes the two spellings of the accented letter for equal, and a tree
  that has them in different directories: the digest is the same for both listings.\<close>

theorem tree_hash_listing_order_invariant_witness:
  "preorders_names (localeCompare E_canon) \<and> told_apart (localeCompare E_canon) (Dir accented) \<and>
   wf_fs (Dir accented) \<and> reordered (Dir accented) (Dir accented_relisted) \<and>
   localeCompare E_canon e_acute_composed e_acute_decomposed = 0 \<and>
   hash (calculateTreeHash E_canon {} accented) = hash (calculateTreeHash E_canon {} accented_relisted)"
proof -
  have o: "preorders_names (localeCompare E_canon)"
    by (simp add: E_canon_def preorders_names_canonCompare)
  have t: "told_apart (localeCompare E_canon) (Dir accented)"
    by (simp add: E_canon_def accented_def canonCompare_def decompose_def byteCompare_def
          e_acute_composed_def e_acute_decomposed_def)
  have w: "wf_fs (Dir accented)"
    by (simp add: accented_def e_acute_composed_def e_acute_decomposed_def)
  have r: "reordered (Dir accented) (Dir accented_relisted)"
    by (simp add: accented_def accented_relisted_def e_acute_composed_def e_acute_decomposed_def)
  have z: "localeCompare E_canon e_acute_composed e_acute_decomposed = 0"
    by (simp add: E_canon_def canonCompare_def decompose_def byteCompare_def
          e_acute_composed_def e_acute_decomposed_def)
  show ?thesis
    using o t w r z tree_hash_listing_order_invariant [OF o t w r, of "{}"] by simp
qed

text \<open>
  Claim C3 as stated fails: \<^verbatim>\<open>localeCompare\<close> is not a comparison of bytes, and two
  different names that it takes for equal keep the order in which the directory lists
  them.  A directory with the two spellings of the accented letter as file names has one
  digest when it is listed one way and another digest when it is listed the other way.
\<close>

theorem tree_hash_listing_order_counterexample:
  "reordered (Dir [(e_acute_composed, File ''1''), (e_acute_decomposed, File ''2'')])
             (Dir [(e_acute_decomposed, File ''2''), (e_acute_composed, File ''1'')]) \<and>
   hash (calculateTreeHash E_canon {} [(e_acute_composed, File ''1''), (e_acute_decomposed, File ''2'')])
     \<noteq> hash (calculateTreeHash E_canon {} [(e_acute_decomposed, File ''2''), (e_acute_composed, File ''1'')])"
  by (simp add: E_canon_def E0_def canonCompare_def decompose_def byteCompare_def
      e_acute_composed_def e_acute_decomposed_def skipped_def sort_by_def Let_def
      serializedTree_def serialize_def kind_str_def toy_digest_def hexdigit_def hex2_def)

section \<open>Properties of the file system operations\<close>

lemma lookup_update:
  "lookup (Dir (AList.update x n es)) (y # q) = (if y = x then lookup n q else lookup (Dir es) (y # q))"
  by (simp add: update_conv')

lemma lookup_Dir_Nil: "lookup (Dir []) q = (if q = [] then Some (Dir []) else None)"
  by (cases q) simp_all

lemma lookup_File: "lookup (File c) q = (if q = [] then Some (File c) else None)"
  by (cases q) simp_all

lemma mkdirp_frame:
  "mkdirp root p = Inr root' \<Longrightarrow> \<not> prefix q p \<Longrightarrow> lookup root' q = lookup root q"
proof (induction root p arbitrary: root' q rule: mkdirp.induct)
  case (4 es x p)
  from "4.prems"(2) obtain y q' where q: "q = y # q'" by (cases q) auto
  let ?n = "case map_of es x of None \<Rightarrow> Dir [] | Some n \<Rightarrow> n"
  from "4.prems"(1) obtain n' where n': "mkdirp ?n p = Inr n'" and r: "root' = Dir (AList.update x n' es)"
    by (auto split: sum.splits)
  show ?case
  proof (cases "y = x")
    case True
    with "4.prems"(2) q have np: "\<not> prefix q' p" by simp
    have "lookup n' q' = lookup ?n q'" by (rule "4.IH" [OF n' np])
    moreover have "q' \<noteq> []" using np by auto
    ultimately show ?thesis using True q r by (auto simp: update_conv' lookup_Dir_Nil split: option.splits)
  next
    case False
    then show ?thesis using q r by (simp add: update_conv')
  qed
qed simp_all

lemma writeFile_frame:
  "writeFile root p b = Inr root' \<Longrightarrow> \<not> prefix q p \<Longrightarrow> lookup root' q = lookup root q"
proof (induction root p b arbitrary: root' q rule: writeFile.induct)
  case (4 es x p bytes)
  from "4.prems"(2) obtain y q' where q: "q = y # q'" by (cases q) auto
  show ?case
  proof (cases "y = x")
    case False
    with "4.prems"(1) q show ?thesis
      by (auto simp: update_conv' split: option.splits sum.splits if_splits)
  next
    case True
    with "4.prems"(2) q have np: "\<not> prefix q' p" by simp
    then have ne: "q' \<noteq> []" by auto
    show ?thesis
    proof (cases "map_of es x")
      case None
      with "4.prems"(1) have "p = []" "root' = Dir (AList.update x (File bytes) es)"
        by (auto split: if_splits)
      with None True q ne show ?thesis by (cases q') (auto simp: update_conv')
    next
      case (Some n)
      with "4.prems"(1) obtain n' where n': "writeFile n p bytes = Inr n'"
        and r: "root' = Dir (AList.update x n' es)"
        by (auto split: sum.splits)
      have "lookup n' q' = lookup n q'" by (rule "4.IH" [OF Some n' np])
      with Some True q r show ?thesis by (simp add: update_conv')
    qed
  qed
qed (auto simp: lookup_File)

lemma mkdirp_files:
  "mkdirp root p = Inr root' \<Longrightarrow> lookup root' q = Some (File c) \<longleftrightarrow> lookup root q = Some (File c)"
proof (induction root p arbitrary: root' q rule: mkdirp.induct)
  case (4 es x p)
  let ?n = "case map_of es x of None \<Rightarrow> Dir [] | Some n \<Rightarrow> n"
  from "4.prems"(1) obtain n' where n': "mkdirp ?n p = Inr n'" and r: "root' = Dir (AList.update x n' es)"
    by (auto split: sum.splits)
  show ?case
  proof (cases q)
    case Nil
    with r show ?thesis by simp
  next
    case (Cons y q')
    show ?thesis
    proof (cases "y = x")
      case True
      have "lookup n' q' = Some (File c) \<longleftrightarrow> lookup ?n q' = Some (File c)" by (rule "4.IH" [OF n'])
      with True Cons r show ?thesis
        by (auto simp: update_conv' lookup_Dir_Nil split: option.splits)
    next
      case False
      with Cons r show ?thesis by (simp add: update_conv')
    qed
  qed
qed auto

lemma mkdirp_result: "mkdirp root p = Inr root' \<Longrightarrow> \<exists>es. lookup root' p = Some (Dir es)"
proof (induction root p arbitrary: root' rule: mkdirp.induct)
  case (4 es x p)
  then show ?case by (auto simp: update_conv' split: sum.splits)
qed auto

lemma writeFile_result: "writeFile root p b = Inr root' \<Longrightarrow> lookup root' p = Some (File b)"
proof (induction root p b arbitrary: root' rule: writeFile.induct)
  case (4 es x p bytes)
  then show ?case by (auto simp: update_conv' split: sum.splits option.splits if_splits)
qed auto

lemma writeFile_idem: "writeFile root p b = Inr root' \<Longrightarrow> writeFile root' p b = Inr root'"
proof (induction root p b arbitrary: root' rule: writeFile.induct)
  case (4 es x p bytes)
  show ?case
  proof (cases "map_of es x")
    case None
    with "4.prems" have "p = []" "root' = Dir (AList.update x (File bytes) es)"
      by (auto split: if_splits)
    then show ?thesis by (simp add: update_conv')
  next
    case (Some n)
    with "4.prems" obtain n' where n': "writeFile n p bytes = Inr n'"
      and r: "root' = Dir (AList.update x n' es)"
      by (auto split: sum.splits)
    have "writeFile n' p bytes = Inr n'" by (rule "4.IH" [OF Some n'])
    with r show ?thesis by (simp add: update_conv')
  qed
qed auto

lemma lookup_append:
  "lookup root (p @ q) = (case lookup root p of None \<Rightarrow> None | Some n \<Rightarrow> lookup n q)"
  by (induction root p rule: lookup.induct) (auto split: option.splits)

lemma lookup_prefix_exists:
  "lookup root (p @ q) = Some n \<Longrightarrow> \<exists>m. lookup root p = Some m"
  by (auto simp: lookup_append split: option.splits)

lemma writeFileSync_Inr:
  "writeFileSync p b st = (st1, Inr u) \<Longrightarrow>
     writeFile (fs st) p b = Inr (fs st1) \<and> trace st1 = trace st @ [WriteFile p b]"
  by (auto simp: writeFileSync_def split: sum.splits)

lemma ensureDir_cases:
  "ensureDir p st = (st1, r) \<Longrightarrow>
     (st1 = st) \<or> (r = Inr () \<and> mkdirp (fs st) p = Inr (fs st1) \<and> trace st1 = trace st @ [Mkdir p])"
  by (auto simp: ensureDir_def mkdirSync_def split: sum.splits if_splits)

lemma put_again:
  assumes "put objectsDir digest bytes st = (st1, Inr ())"
  shows "put objectsDir digest bytes st1 =
           (st1\<lparr>trace := trace st1 @ [WriteFile (objectsDir @ [take 2 digest, drop 2 digest]) bytes]\<rparr>, Inr ())
         \<and> readFileSync (fs st1) (objectsDir @ [take 2 digest, drop 2 digest]) = Inr bytes"
proof -
  let ?obj = "objectsDir @ [take 2 digest, drop 2 digest]"
  let ?shard = "objectsDir @ [take 2 digest]"
  have bl: "butlast ?obj = ?shard" by (simp add: butlast_append)
  from assms obtain st' where e: "ensureDir ?shard st = (st', Inr ())"
    and w: "writeFileSync ?obj bytes st' = (st1, Inr ())"
    by (auto simp: put_def Let_def bl split: prod.splits sum.splits)
  from writeFileSync_Inr [OF w] have wf: "writeFile (fs st') ?obj bytes = Inr (fs st1)" by simp
  have res: "lookup (fs st1) ?obj = Some (File bytes)" by (rule writeFile_result [OF wf])
  have "lookup (fs st1) (?shard @ [drop 2 digest]) = Some (File bytes)" using res by simp
  then have ex: "existsSync (fs st1) ?shard"
    unfolding existsSync_def using lookup_prefix_exists by fastforce
  have idem: "writeFile (fs st1) ?obj bytes = Inr (fs st1)" by (rule writeFile_idem [OF wf])
  show ?thesis
    using ex idem res by (simp add: put_def Let_def bl ensureDir_def writeFileSync_def readFileSync_def)
qed

lemmas run_defs = put_def ensureDir_def mkdirSync_def writeFileSync_def existsSync_def
  readFileSync_def console_error_def console_log_def Let_def

section \<open>The object store\<close>

text \<open>
  Claim C6, as amended.  \<^verbatim>\<open>put\<close> writes the object file on every call, also when an
  object with the digest is there already.  After a first \<^verbatim>\<open>put\<close> of a digest and its
  bytes has succeeded, a second one writes the same bytes to the same file again and
  leaves the content of the object store as it was: the store holds the bytes under the
  digest after one call and after two.
\<close>

theorem put_twice_as_once:
  assumes "put objectsDir digest bytes st = (st1, Inr ())"
  shows "put objectsDir digest bytes st1 =
           (st1\<lparr>trace := trace st1 @ [WriteFile (objectsDir @ [take 2 digest, drop 2 digest]) bytes]\<rparr>, Inr ())
         \<and> fs (fst (put objectsDir digest bytes st1)) = fs st1
         \<and> readFileSync (fs st1) (objectsDir @ [take 2 digest, drop 2 digest]) = Inr bytes"
  using put_again [OF assms] by simp

text \<open>On a store without objects, the first call makes the shard directory and the object
  file; the second call leaves that file system as it is.\<close>

theorem put_twice_as_once_witness:
  "put [''.subsys'', ''objects''] ''d242b002'' ''hi'' empty_store = (store_with_object\<lparr>trace :=
      [Mkdir [''.subsys'', ''objects'', ''d2''], WriteFile [''.subsys'', ''objects'', ''d2'', ''42b002''] ''hi'']\<rparr>, Inr ())
   \<and> fs (fst (put [''.subsys'', ''objects''] ''d242b002'' ''hi'' (store_with_object\<lparr>trace :=
      [Mkdir [''.subsys'', ''objects'', ''d2''], WriteFile [''.subsys'', ''objects'', ''d2'', ''42b002''] ''hi'']\<rparr>)))
      = fs store_with_object"
proof -
  have first: "put [''.subsys'', ''objects''] ''d242b002'' ''hi'' empty_store = (store_with_object\<lparr>trace :=
      [Mkdir [''.subsys'', ''objects'', ''d2''], WriteFile [''.subsys'', ''objects'', ''d2'', ''42b002''] ''hi'']\<rparr>, Inr ())"
    by (simp add: run_defs empty_store_def store_with_object_def)
  show ?thesis
    using first put_twice_as_once [OF first] by simp
qed

text \<open>
  Claim C6 as stated fails: a call for a digest that has an object is not a no-op.  The
  object file is written again, and when the file under the digest does not hold the
  bytes given (here it was cut short), the call replaces its content.
\<close>

theorem put_rewrites_existing_object_counterexample:
  "existsSync (fs store_with_object) [''.subsys'', ''objects'', ''d2'', ''42b002''] \<and>
   trace (fst (put [''.subsys'', ''objects''] ''d242b002'' ''hi'' store_with_object))
     = [WriteFile [''.subsys'', ''objects'', ''d2'', ''42b002''] ''hi''] \<and>
   readFileSync (fs store_with_cut_object) [''.subsys'', ''objects'', ''d2'', ''42b002''] = Inr ''h'' \<and>
   readFileSync (fs (fst (put [''.subsys'', ''objects''] ''d242b002'' ''hi'' store_with_cut_object)))
     [''.subsys'', ''objects'', ''d2'', ''42b002''] = Inr ''hi''"
  by (simp add: run_defs store_with_object_def store_with_cut_object_def)

section \<open>The duplicate checks\<close>

lemma isDuplicateName_fails:
  assumes "existsSync (fs st) (D @ [''logTrack.json''])"
    and "read_json E (fs st) (D @ [''logTrack.json'']) = Inl e"
  shows "isDuplicateName E D nm st = (console_error (DuplicateNameCheckFailed e) st, True)"
  using assms by (simp add: isDuplicateName_def log_has_def)

lemma isDuplicateSHA_fails:
  assumes "existsSync (fs st) (D @ [''logTrack.json''])"
    and "read_json E (fs st) (D @ [''logTrack.json'']) = Inl e"
  shows "isDuplicateSHA E D h st = (console_error (DuplicateSHACheckFailed e) st, True)"
  using assms by (simp add: isDuplicateSHA_def log_has_def)

lemma snap_duplicate_name:
  assumes "sanitize snapshotName = snapshotName"
    and "snap_prepare E st = (st2, Inr treeObject)"
    and "isDuplicateName E [''.subsys'', ''snapshots''] snapshotName st2 = (st3, True)"
  shows "snap E fuel snapshotName st = (console_error NameExists st3, Some (Inr ()))"
  using assms by (simp add: snap_def)

lemma snap_duplicate_content:
  assumes "sanitize snapshotName = snapshotName"
    and "snap_prepare E st = (st2, Inr treeObject)"
    and "isDuplicateName E [''.subsys'', ''snapshots''] snapshotName st2 = (st3, False)"
    and "isDuplicateSHA E [''.subsys'', ''snapshots''] (hash treeObject) st3 = (st4, True)"
  shows "snap E fuel snapshotName st = (console_error ContentExists st4, Some (Inr ()))"
  using assms by (simp add: snap_def)

text \<open>
  Claim C7.  When the log file exists and reading or parsing it fails, the check by name
  and the check by digest both print the error and return true, and \<^verbatim>\<open>snap\<close> then
  refuses with the message that the name exists: it returns with the file system as it
  was after the two directories were made.
\<close>

theorem duplicate_checks_fail_closed:
  assumes "sanitize snapshotName = snapshotName"
    and "snap_prepare E st = (st2, Inr treeObject)"
    and "existsSync (fs st2) [''.subsys'', ''snapshots'', ''logTrack.json'']"
    and "read_json E (fs st2) [''.subsys'', ''snapshots'', ''logTrack.json''] = Inl e"
  shows "isDuplicateName E [''.subsys'', ''snapshots''] nm st2
           = (console_error (DuplicateNameCheckFailed e) st2, True) \<and>
         isDuplicateSHA E [''.subsys'', ''snapshots''] h st2
           = (console_error (DuplicateSHACheckFailed e) st2, True) \<and>
         snap E fuel snapshotName st
           = (console_error NameExists (console_error (DuplicateNameCheckFailed e) st2), Some (Inr ()))"
proof -
  have n: "isDuplicateName E [''.subsys'', ''snapshots''] nm st2
           = (console_error (DuplicateNameCheckFailed e) st2, True)" for nm
    using assms(3,4) isDuplicateName_fails [of st2 "[''.subsys'', ''snapshots'']" E e] by simp
  have s: "isDuplicateSHA E [''.subsys'', ''snapshots''] h st2
           = (console_error (DuplicateSHACheckFailed e) st2, True)"
    using assms(3,4) isDuplicateSHA_fails [of st2 "[''.subsys'', ''snapshots'']" E e] by simp
  show ?thesis
    using n s snap_duplicate_name [OF assms(1,2) n] by simp
qed

text \<open>A repository whose log is not JSON text: the snapshot is refused.\<close>

theorem duplicate_checks_fail_closed_witness:
  "sanitize ''v2'' = ''v2'' \<and>
   existsSync (fs repo_with_broken_log) [''.subsys'', ''snapshots'', ''logTrack.json''] \<and>
   read_json E0 (fs repo_with_broken_log) [''.subsys'', ''snapshots'', ''logTrack.json''] = Inl SyntaxError \<and>
   snap E0 0 ''v2'' repo_with_broken_log
     = (console_error NameExists (console_error (DuplicateNameCheckFailed SyntaxError) repo_with_broken_log),
        Some (Inr ()))"
proof -
  have a: "sanitize ''v2'' = ''v2''"
    by (simp add: sanitize_def is_alnum_def toLowerCase_def)
  have b: "snap_prepare E0 repo_with_broken_log
      = (repo_with_broken_log, Inr (calculateTreeHash E0 {} [(''a.txt'', File ''hi''),
                (''.subsys'', Dir [(''snapshots'', Dir [(''logTrack.json'', File ''[{'')]),
                                   (''objects'', Dir [])])]))"
    by (simp add: snap_prepare_def repo_with_broken_log_def run_defs getIgnoreList_def
        del: calculateTreeHash.simps)
  have c: "existsSync (fs repo_with_broken_log) [''.subsys'', ''snapshots'', ''logTrack.json'']"
    by (simp add: repo_with_broken_log_def existsSync_def)
  have d: "read_json E0 (fs repo_with_broken_log) [''.subsys'', ''snapshots'', ''logTrack.json''] = Inl SyntaxError"
    by (simp add: repo_with_broken_log_def read_json_def readFileSync_def E0_def toy_parse_def
        known_logs_def json_of_logEntry_def)
  show ?thesis
    using a c d duplicate_checks_fail_closed [OF a b c d, of "''v2''" "''x''" 0] by simp
qed

section \<open>The snapshot loader\<close>

text \<open>
  Claim C8.  For every path, \<^verbatim>\<open>decompressSnapshot\<close> returns a value and throws nothing
  to its caller.  It returns \<^verbatim>\<open>null\<close> when there is nothing at the path, when the path
  is a directory, when it does not end with \<^verbatim>\<open>.gz\<close>, when the content does not
  decompress and when the decompressed text does not parse; it returns the parsed value
  when all of that succeeds.
\<close>

theorem loader_returns_artifact_or_null:
  "(\<exists>j. snd (decompressSnapshot E snapshotFile st) = Inr j) \<and>
   ((lookup (fs st) snapshotFile = None \<or>
     (\<exists>es. lookup (fs st) snapshotFile = Some (Dir es)) \<or>
     \<not> suffix ''.gz'' (path_text snapshotFile) \<or>
     (\<exists>c. lookup (fs st) snapshotFile = Some (File c) \<and> gunzipSync E c = None) \<or>
     (\<exists>c text. lookup (fs st) snapshotFile = Some (File c) \<and> gunzipSync E c = Some text \<and>
        JSON_parse E text = None))
    \<longrightarrow> snd (decompressSnapshot E snapshotFile st) = Inr JNull) \<and>
   (\<forall>c text j.
      lookup (fs st) snapshotFile = Some (File c) \<and> suffix ''.gz'' (path_text snapshotFile) \<and>
      gunzipSync E c = Some text \<and> JSON_parse E text = Some j
      \<longrightarrow> decompressSnapshot E snapshotFile st = (st, Inr j))"
  by (auto simp: decompressSnapshot_def decompressSnapshot_try_def readFileSync_def isFile_def
      split: option.splits fsnode.splits sum.splits)

text \<open>In a snapshots folder with a good artifact, a file that is not compressed, a file
  with another extension and no file \<^verbatim>\<open>v3.gz\<close>, the loader returns the parsed value
  for the first and \<^verbatim>\<open>null\<close> for the others and for the folder itself.\<close>

theorem loader_returns_artifact_or_null_witness:
  "decompressSnapshot E0 [''.subsys'', ''snapshots'', ''v1.gz''] repo_with_artifact
     = (repo_with_artifact, Inr (JArr [])) \<and>
   snd (decompressSnapshot E0 [''.subsys'', ''snapshots'', ''v2.gz''] repo_with_artifact) = Inr JNull \<and>
   snd (decompressSnapshot E0 [''.subsys'', ''snapshots'', ''notes.txt''] repo_with_artifact) = Inr JNull \<and>
   snd (decompressSnapshot E0 [''.subsys'', ''snapshots''] repo_with_artifact) = Inr JNull \<and>
   snd (decompressSnapshot E0 [''.subsys'', ''snapshots'', ''v3.gz''] repo_with_artifact) = Inr JNull"
proof -
  note th = loader_returns_artifact_or_null [of E0 _ repo_with_artifact]
  have good: "lookup (fs repo_with_artifact) [''.subsys'', ''snapshots'', ''v1.gz''] = Some (File ''gz:[]'') \<and>
      suffix ''.gz'' (path_text [''.subsys'', ''snapshots'', ''v1.gz'']) \<and>
      gunzipSync E0 ''gz:[]'' = Some ''[]'' \<and> JSON_parse E0 ''[]'' = Some (JArr [])"
    by (simp add: repo_with_artifact_def path_text_def E0_def toy_gunzip_def toy_parse_def
        known_logs_def json_of_logEntry_def suffix_def)
  have 1: "decompressSnapshot E0 [''.subsys'', ''snapshots'', ''v1.gz''] repo_with_artifact
     = (repo_with_artifact, Inr (JArr []))"
    using th [of "[''.subsys'', ''snapshots'', ''v1.gz'']"] good by blast
  have "lookup (fs repo_with_artifact) [''.subsys'', ''snapshots'', ''v2.gz''] = Some (File ''[]'') \<and>
      gunzipSync E0 ''[]'' = None"
    by (simp add: repo_with_artifact_def E0_def toy_gunzip_def)
  then have 2: "snd (decompressSnapshot E0 [''.subsys'', ''snapshots'', ''v2.gz''] repo_with_artifact) = Inr JNull"
    using th [of "[''.subsys'', ''snapshots'', ''v2.gz'']"] by blast
  have "\<not> suffix ''.gz'' (path_text [''.subsys'', ''snapshots'', ''notes.txt''])"
    by (simp add: path_text_def suffix_def)
  then have 3: "snd (decompressSnapshot E0 [''.subsys'', ''snapshots'', ''notes.txt''] repo_with_artifact) = Inr JNull"
    using th [of "[''.subsys'', ''snapshots'', ''notes.txt'']"] by blast
  have "\<exists>es. lookup (fs repo_with_artifact) [''.subsys'', ''snapshots''] = Some (Dir es)"
    by (simp add: repo_with_artifact_def)
  then have 4: "snd (decompressSnapshot E0 [''.subsys'', ''snapshots''] repo_with_artifact) = Inr JNull"
    using th [of "[''.subsys'', ''snapshots'']"] by blast
  have "lookup (fs repo_with_artifact) [''.subsys'', ''snapshots'', ''v3.gz''] = None"
    by (simp add: repo_with_artifact_def)
  then have 5: "snd (decompressSnapshot E0 [''.subsys'', ''snapshots'', ''v3.gz''] repo_with_artifact) = Inr JNull"
    using th [of "[''.subsys'', ''snapshots'', ''v3.gz'']"] by blast
  from 1 2 3 4 5 show ?thesis by blast
qed

section \<open>What a snapshot writes\<close>

lemma writes_within_refl: "writes_within P st st"
  by (simp add: writes_within_def)

lemma writes_within_trans:
  "writes_within P st st1 \<Longrightarrow> writes_within P st1 st2 \<Longrightarrow> writes_within P st st2"
  unfolding writes_within_def by (elim conjE exE) (rule conjI, rule_tac x = "evs @ evsa" in exI, auto)

lemma writes_within_mono:
  "writes_within P st st' \<Longrightarrow> (\<And>p. P p \<Longrightarrow> Q p) \<Longrightarrow> writes_within Q st st'"
  unfolding writes_within_def by (elim conjE exE) (rule conjI, rule_tac x = evs in exI, auto)

lemma writes_within_console_error: "writes_within P st (console_error m st)"
  by (simp add: writes_within_def console_error_def touched_def)

lemma writes_within_console_log: "writes_within P st (console_log m st)"
  by (simp add: writes_within_def console_log_def touched_def)

lemma writes_within_mkdirSync:
  "P p \<Longrightarrow> writes_within P st (fst (mkdirSync p st))"
  by (auto simp: writes_within_def mkdirSync_def touched_def mkdirp_frame split: sum.splits)

lemma writes_within_writeFileSync:
  "P p \<Longrightarrow> writes_within P st (fst (writeFileSync p b st))"
  by (auto simp: writes_within_def writeFileSync_def touched_def writeFile_frame split: sum.splits)

lemma writes_within_ensureDir:
  "P p \<Longrightarrow> writes_within P st (fst (ensureDir p st))"
  by (simp add: ensureDir_def writes_within_refl writes_within_mkdirSync)

lemma writes_within_isDuplicateName: "writes_within P st (fst (isDuplicateName E D nm st))"
  by (simp add: isDuplicateName_def writes_within_refl writes_within_console_error split: sum.splits)

lemma writes_within_isDuplicateSHA: "writes_within P st (fst (isDuplicateSHA E D h st))"
  by (simp add: isDuplicateSHA_def writes_within_refl writes_within_console_error
      writes_within_console_log split: sum.splits)

lemma writes_within_mkdirSyncI:
  "mkdirSync p st = (st', r) \<Longrightarrow> P p \<Longrightarrow> writes_within P st st'"
  using writes_within_mkdirSync [of P p st] by simp

lemma writes_within_writeFileSyncI:
  "writeFileSync p b st = (st', r) \<Longrightarrow> P p \<Longrightarrow> writes_within P st st'"
  using writes_within_writeFileSync [of P p st b] by simp

lemma writes_within_ensureDirI:
  "ensureDir p st = (st', r) \<Longrightarrow> P p \<Longrightarrow> writes_within P st st'"
  using writes_within_ensureDir [of P p st] by simp

lemma writes_within_isDuplicateNameI:
  "isDuplicateName E D nm st = (st', r) \<Longrightarrow> writes_within P st st'"
  using writes_within_isDuplicateName [of P st E D nm] by simp

lemma writes_within_isDuplicateSHAI:
  "isDuplicateSHA E D h st = (st', r) \<Longrightarrow> writes_within P st st'"
  using writes_within_isDuplicateSHA [of P st E D h] by simp

lemma processEntry_file_step:
  "writes_within in_objects st
          (fst (case ensureDir [''.subsys'', ''objects'', a] st of
                  (st1, Inl e) \<Rightarrow> (st1, Some (Inl e))
                | (st1, Inr u) \<Rightarrow>
                   (case readFileSync (fs st1) entryPath of
                      Inl e \<Rightarrow> (st1, Some (Inl e))
                    | Inr fileContent \<Rightarrow>
                       (case writeFileSync [''.subsys'', ''objects'', a, b] fileContent st1 of
                          (st2, Inl e) \<Rightarrow> (st2, Some (Inl e))
                        | (st2, Inr u) \<Rightarrow> (st2, Some (Inr r))))))"
proof -
  have a: "in_objects [''.subsys'', ''objects'', a]" and b: "in_objects [''.subsys'', ''objects'', a, b]"
    by (simp_all add: in_objects_def)
  obtain st1 r1 where e: "ensureDir [''.subsys'', ''objects'', a] st = (st1, r1)"
    by (cases "ensureDir [''.subsys'', ''objects'', a] st")
  have w1: "writes_within in_objects st st1"
    by (rule writes_within_ensureDirI [where P = in_objects, OF e a])
  show ?thesis
  proof (cases r1)
    case (Inl err)
    with e w1 show ?thesis by simp
  next
    case (Inr u)
    show ?thesis
    proof (cases "readFileSync (fs st1) entryPath")
      case (Inl err)
      with e Inr w1 show ?thesis by simp
    next
      case (Inr fileContent)
      obtain st2 r2 where w: "writeFileSync [''.subsys'', ''objects'', a, b] fileContent st1 = (st2, r2)"
        by (cases "writeFileSync [''.subsys'', ''objects'', a, b] fileContent st1")
      have "writes_within in_objects st1 st2"
        by (rule writes_within_writeFileSyncI [where P = in_objects, OF w b])
      with w1 have "writes_within in_objects st st2" by (rule writes_within_trans)
      with e \<open>r1 = Inr u\<close> Inr w show ?thesis by (cases r2) simp_all
    qed
  qed
qed

lemma processEntries_within:
  assumes IH: "\<And>entryPath acc st.
      writes_within in_objects st (fst (processEntry n E entryPath [''.subsys'', ''objects''] acc st))"
  shows "writes_within in_objects st
           (fst (processEntries n E entryPath entries [''.subsys'', ''objects''] acc st))"
proof (induction entries arbitrary: acc st)
  case Nil
  then show ?case by (simp add: writes_within_refl)
next
  case (Cons subEntry rest)
  obtain st1 r where p: "processEntry n E (entryPath @ [subEntry]) [''.subsys'', ''objects''] acc st = (st1, r)"
    by (cases "processEntry n E (entryPath @ [subEntry]) [''.subsys'', ''objects''] acc st")
  have w1: "writes_within in_objects st st1" using IH [of st "entryPath @ [subEntry]" acc] p by simp
  show ?case
  proof (cases r)
    case None
    with p w1 show ?thesis by simp
  next
    case (Some x)
    show ?thesis
    proof (cases x)
      case (Inl e)
      with Some p w1 show ?thesis by simp
    next
      case (Inr acc1)
      have "writes_within in_objects st1
              (fst (processEntries n E entryPath rest [''.subsys'', ''objects''] acc1 st1))"
        by (rule Cons.IH)
      with w1 Some Inr p show ?thesis by (auto intro: writes_within_trans)
    qed
  qed
qed

lemma processEntry_within:
  "writes_within in_objects st (fst (processEntry n E entryPath [''.subsys'', ''objects''] acc st))"
proof (induction n arbitrary: entryPath acc st)
  case 0
  then show ?case by (simp add: writes_within_refl)
next
  case (Suc n)
  show ?case
  proof (cases "lookup (fs st) entryPath")
    case None
    then show ?thesis by (simp add: writes_within_refl)
  next
    case (Some node)
    show ?thesis
    proof (cases node)
      case (File content)
      show ?thesis
        using Some File by (simp add: Let_def processEntry_file_step)
    next
      case (Dir es)
      obtain st1 r where p: "processEntries n E entryPath (map fst es) [''.subsys'', ''objects''] ([], snd acc) st = (st1, r)"
        by (cases "processEntries n E entryPath (map fst es) [''.subsys'', ''objects''] ([], snd acc) st")
      have "writes_within in_objects st st1"
        using processEntries_within [of n E st entryPath "map fst es" "([], snd acc)", OF Suc.IH] p by simp
      then show ?thesis
        using Some Dir p by (auto split: option.splits sum.splits prod.splits)
    qed
  qed
qed

lemma in_objects_metadata: "in_objects p \<Longrightarrow> in_metadata p"
  by (simp add: in_objects_def in_metadata_def)

lemma writeSnapshot_within:
  "writes_within in_metadata st
     (fst (writeSnapshot E [''.subsys'', ''snapshots''] snapshotName treeObject fileList st))"
proof -
  let ?art = "[''.subsys'', ''snapshots'', snapshotName @ ''.gz'']"
  let ?log = "[''.subsys'', ''snapshots'', ''logTrack.json'']"
  have a: "in_metadata ?art" and l: "in_metadata ?log" by (simp_all add: in_metadata_def)
  obtain st1 r1 where w: "writeFileSync ?art
      (gzipSync E (JSON_stringify E (json_of_snapshotData treeObject fileList))) st = (st1, r1)"
    by (cases "writeFileSync ?art
      (gzipSync E (JSON_stringify E (json_of_snapshotData treeObject fileList))) st")
  have w1: "writes_within in_metadata st st1"
    by (rule writes_within_writeFileSyncI [where P = in_metadata, OF w a])
  have w2: "writes_within in_metadata st (fst (writeFileSync ?log c st1))" for c
    using w1 writes_within_writeFileSync [where P = in_metadata, OF l] by (rule writes_within_trans)
  show ?thesis
    using w w1 w2
    by (auto simp: writeSnapshot_def Let_def split: sum.splits json.splits)
qed

lemma snap_prepare_within: "writes_within in_metadata st (fst (snap_prepare E st))"
proof -
  have s: "in_metadata [''.subsys'', ''snapshots'']" and o: "in_metadata [''.subsys'', ''objects'']"
    by (simp_all add: in_metadata_def)
  obtain st1 r1 where e1: "ensureDir [''.subsys'', ''snapshots''] st = (st1, r1)"
    by (cases "ensureDir [''.subsys'', ''snapshots''] st")
  obtain st2 r2 where e2: "ensureDir [''.subsys'', ''objects''] st1 = (st2, r2)"
    by (cases "ensureDir [''.subsys'', ''objects''] st1")
  have w1: "writes_within in_metadata st st1"
    by (rule writes_within_ensureDirI [where P = in_metadata, OF e1 s])
  have "writes_within in_metadata st1 st2"
    by (rule writes_within_ensureDirI [where P = in_metadata, OF e2 o])
  with w1 have w2: "writes_within in_metadata st st2" by (rule writes_within_trans)
  show ?thesis
    using e1 e2 w1 w2
    by (auto simp: snap_prepare_def Let_def split: sum.splits fsnode.splits)
qed

lemma snap_within: "writes_within in_metadata st (fst (snap E fuel snapshotName st))"
proof (cases "sanitize snapshotName = snapshotName")
  case False
  then show ?thesis by (simp add: snap_def writes_within_console_error)
next
  case True
  obtain st2 r2 where p: "snap_prepare E st = (st2, r2)" by (cases "snap_prepare E st")
  have w2: "writes_within in_metadata st st2" using snap_prepare_within [of st E] p by simp
  show ?thesis
  proof (cases r2)
    case (Inl e)
    with True p w2 show ?thesis by (simp add: snap_def)
  next
    case (Inr treeObject)
    obtain st3 dn where n: "isDuplicateName E [''.subsys'', ''snapshots''] snapshotName st2 = (st3, dn)"
      by (cases "isDuplicateName E [''.subsys'', ''snapshots''] snapshotName st2")
    have w3: "writes_within in_metadata st st3"
      using w2 writes_within_isDuplicateNameI [OF n] by (rule writes_within_trans)
    show ?thesis
    proof (cases dn)
      case True
      with \<open>sanitize snapshotName = snapshotName\<close> p Inr n w3 show ?thesis
        by (auto simp: snap_def intro: writes_within_trans [OF _ writes_within_console_error])
    next
      case False
      note nodn = False
      obtain st4 ds where d: "isDuplicateSHA E [''.subsys'', ''snapshots''] (hash treeObject) st3 = (st4, ds)"
        by (cases "isDuplicateSHA E [''.subsys'', ''snapshots''] (hash treeObject) st3")
      have w4: "writes_within in_metadata st st4"
        using w3 writes_within_isDuplicateSHAI [OF d] by (rule writes_within_trans)
      show ?thesis
      proof (cases ds)
        case True
        with \<open>sanitize snapshotName = snapshotName\<close> p Inr n nodn d w4 show ?thesis
          by (auto simp: snap_def intro: writes_within_trans [OF _ writes_within_console_error])
      next
        case False
        obtain st5 r5 where ws: "writeSnapshot E [''.subsys'', ''snapshots''] snapshotName treeObject [] st4 = (st5, r5)"
          by (cases "writeSnapshot E [''.subsys'', ''snapshots''] snapshotName treeObject [] st4")
        have w5: "writes_within in_metadata st st5"
          using w4 writeSnapshot_within [of st4 E snapshotName treeObject "[]"] ws
          by (auto intro: writes_within_trans)
        show ?thesis
        proof (cases r5)
          case (Inl e)
          with \<open>sanitize snapshotName = snapshotName\<close> p Inr n nodn d False ws w5 show ?thesis
            by (auto simp: snap_def intro: writes_within_trans [OF _ writes_within_console_error])
        next
          case (Inr u)
          let ?acc = "(case children treeObject of None \<Rightarrow> [] | Some cs \<Rightarrow> cs, [])"
          obtain st6 r6 where pe: "processEntry fuel E [] [''.subsys'', ''objects''] ?acc st5 = (st6, r6)"
            by (cases "processEntry fuel E [] [''.subsys'', ''objects''] ?acc st5")
          have "writes_within in_objects st5 st6"
            using processEntry_within [of st5 fuel E "[]" ?acc] pe by simp
          then have "writes_within in_metadata st5 st6"
            by (rule writes_within_mono) (rule in_objects_metadata)
          with w5 have w6: "writes_within in_metadata st st6" by (rule writes_within_trans)
          then have w7: "writes_within in_metadata st (console_log m st6)" for m
            using writes_within_console_log by (rule writes_within_trans)
          from \<open>sanitize snapshotName = snapshotName\<close> p \<open>r2 = Inr treeObject\<close> n nodn d False ws Inr pe w6 w7
          show ?thesis
            by (auto simp: snap_def split: option.splits sum.splits)
        qed
      qed
    qed
  qed
qed


lemma file_at_mkdirp: "mkdirp root p = Inr root' \<Longrightarrow> file_at root' q = file_at root q"
proof -
  assume m: "mkdirp root p = Inr root'"
  have "lookup root' q = Some (File c) \<longleftrightarrow> lookup root q = Some (File c)" for c
    by (rule mkdirp_files [OF m])
  then show ?thesis
    by (cases "lookup root' q"; cases "lookup root q")
       (auto simp: file_at_def split: fsnode.splits)
qed

lemma no_file_written_refl: "no_file_written st st"
  by (simp add: no_file_written_def)

lemma no_file_written_trans:
  "no_file_written st st1 \<Longrightarrow> no_file_written st1 st2 \<Longrightarrow> no_file_written st st2"
  unfolding no_file_written_def by (elim conjE exE) (rule conjI, rule_tac x = "evs @ evsa" in exI, auto)

lemma no_file_written_console_error: "no_file_written st (console_error m st)"
  by (simp add: no_file_written_def console_error_def)

lemma no_file_written_console_log: "no_file_written st (console_log m st)"
  by (simp add: no_file_written_def console_log_def)

lemma no_file_written_ensureDir: "ensureDir p st = (st', r) \<Longrightarrow> no_file_written st st'"
  by (auto simp: no_file_written_def ensureDir_def mkdirSync_def file_at_mkdirp
      split: if_splits sum.splits)

lemma no_file_written_snap_prepare: "snap_prepare E st = (st2, r) \<Longrightarrow> no_file_written st st2"
proof -
  assume p: "snap_prepare E st = (st2, r)"
  obtain st1 r1 where e1: "ensureDir [''.subsys'', ''snapshots''] st = (st1, r1)"
    by (cases "ensureDir [''.subsys'', ''snapshots''] st")
  obtain st2' r2 where e2: "ensureDir [''.subsys'', ''objects''] st1 = (st2', r2)"
    by (cases "ensureDir [''.subsys'', ''objects''] st1")
  have w1: "no_file_written st st1" by (rule no_file_written_ensureDir [OF e1])
  have w2: "no_file_written st st2'"
    using w1 no_file_written_ensureDir [OF e2] by (rule no_file_written_trans)
  from p e1 e2 have "st2 = st1 \<or> st2 = st2'"
    by (auto simp: snap_prepare_def Let_def split: sum.splits fsnode.splits)
  with w1 w2 show ?thesis by auto
qed

lemma no_file_written_isDuplicateName:
  "isDuplicateName E D nm st = (st', r) \<Longrightarrow> no_file_written st st'"
  by (auto simp: isDuplicateName_def no_file_written_refl no_file_written_console_error
      split: sum.splits)

lemma no_file_written_isDuplicateSHA:
  "isDuplicateSHA E D h st = (st', r) \<Longrightarrow> no_file_written st st'"
  by (auto simp: isDuplicateSHA_def no_file_written_refl no_file_written_console_error
      no_file_written_console_log split: sum.splits if_splits)

lemma last_console_error: "last (trace (console_error m st)) = ConsoleError m"
  by (simp add: console_error_def)


lemmas snap_defs = snap_def snap_prepare_def sanitize_def is_alnum_def toLowerCase_def
  getIgnoreList_def add_ignore_line_def trim_def is_space_def skipped_def sort_by_def
  isDuplicateName_def isDuplicateSHA_def log_has_def prop_is_def get_prop_def array_some_def
  writeSnapshot_def json_of_snapshotData_def json_of_file_def json_of_logEntry_def
  serializedTree_def serialize_def kind_str_def read_json_def

lemmas E0_defs = E0_def toy_glob_def toy_parse_def known_logs_def toy_gunzip_def
  toy_digest_def hexdigit_def hex2_def byteCompare_def suffix_def

lemma workdir_ignoreList: "getIgnoreList E0 (fs workdir) = Inr {''secret.env'', ''debug.log''}"
  by (auto simp: workdir_def ignore_text_def snap_defs run_defs E0_defs)

lemma workdir_tree:
  "calculateTreeHash E0 {''secret.env'', ''debug.log''}
     [(''.subsysignore'', File ignore_text), (''secret.env'', File ''KEY=1''),
      (''debug.log'', File ''trace''), (''a.txt'', File ''hi''), (''.subsys'', d)] = workdir_tree"
  by (simp add: workdir_tree_def ignore_text_def snap_defs run_defs E0_defs)

lemma snap_workdir:
  "snap E0 (Suc (Suc (Suc (Suc (Suc 0))))) ''v1'' workdir = (workdir_after, Some (Inr ()))"
  by (simp add: workdir_def workdir_after_def workdir_tree_def workdir_artifact_def workdir_log_def
      ignore_text_def snap_defs run_defs E0_defs)

section \<open>Claims about taking a snapshot\<close>

text \<open>
  Claim C9.  Whatever \<^verbatim>\<open>snap\<close> is given and however it ends, every directory it makes
  and every file it writes lies in \<^verbatim>\<open>.subsys/snapshots\<close> or in \<^verbatim>\<open>.subsys/objects\<close>, and
  what is found at any path outside \<^verbatim>\<open>.subsys\<close> is the same before and after: no file
  outside the metadata directory is created, changed or removed.
\<close>

theorem snap_writes_only_metadata:
  assumes "snap E fuel snapshotName st = (st', r)"
  shows "(\<exists>evs. trace st' = trace st @ evs \<and>
            (\<forall>e \<in> set evs. \<forall>p. touched e = Some p \<longrightarrow> in_metadata p)) \<and>
         (\<forall>q. q \<noteq> [] \<and> hd q \<noteq> ''.subsys'' \<longrightarrow> lookup (fs st') q = lookup (fs st) q)"
proof -
  have w: "writes_within in_metadata st st'" using snap_within [of st E fuel snapshotName] assms by simp
  have "\<forall>p. in_metadata p \<longrightarrow> \<not> prefix q p" if "q \<noteq> []" "hd q \<noteq> ''.subsys''" for q
    using that by (cases q) (auto simp: in_metadata_def prefix_def)
  with w show ?thesis unfolding writes_within_def by blast
qed

text \<open>The snapshot of the example directory writes the object of \<^verbatim>\<open>a.txt\<close> into the
  object store and leaves \<^verbatim>\<open>a.txt\<close> and \<^verbatim>\<open>secret.env\<close> as they were.\<close>

theorem snap_writes_only_metadata_witness:
  "snap E0 (Suc (Suc (Suc (Suc (Suc 0))))) ''v1'' workdir = (workdir_after, Some (Inr ())) \<and>
   WriteFile [''.subsys'', ''objects'', ''d2'', ''42b002''] ''hi'' \<in> set (trace workdir_after) \<and>
   in_metadata [''.subsys'', ''objects'', ''d2'', ''42b002''] \<and>
   lookup (fs workdir_after) [''a.txt''] = lookup (fs workdir) [''a.txt''] \<and>
   lookup (fs workdir_after) [''secret.env''] = lookup (fs workdir) [''secret.env'']"
proof -
  note th = snap_writes_only_metadata [OF snap_workdir]
  from th obtain evs where evs: "trace workdir_after = trace workdir @ evs"
    and all: "\<forall>e \<in> set evs. \<forall>p. touched e = Some p \<longrightarrow> in_metadata p"
    by blast
  have mem: "WriteFile [''.subsys'', ''objects'', ''d2'', ''42b002''] ''hi'' \<in> set (trace workdir_after)"
    by (simp add: workdir_after_def)
  then have "WriteFile [''.subsys'', ''objects'', ''d2'', ''42b002''] ''hi'' \<in> set evs"
    using evs by (simp add: workdir_def)
  with all have m: "in_metadata [''.subsys'', ''objects'', ''d2'', ''42b002'']"
    by (auto simp: touched_def)
  from th have f: "lookup (fs workdir_after) [''a.txt''] = lookup (fs workdir) [''a.txt'']"
    and g: "lookup (fs workdir_after) [''secret.env''] = lookup (fs workdir) [''secret.env'']"
    by simp_all
  from snap_workdir mem m f g show ?thesis by blast
qed

text \<open>
  Claim C5.  When the name is a slug, the two directories, the ignore list and the tree
  have been made, and the check by name or the check by digest holds, \<^verbatim>\<open>snap\<close> returns
  after printing the cause, the name for the check by name and the content otherwise.
  Between its start and its return it writes no file, so there is no artifact, no log
  entry and no object of this snapshot, and every file has the content it had.
\<close>

theorem duplicate_refused_without_writes:
  assumes "sanitize snapshotName = snapshotName"
    and "snap_prepare E st = (st2, Inr treeObject)"
    and "isDuplicateName E [''.subsys'', ''snapshots''] snapshotName st2 = (st3, dn)"
    and "isDuplicateSHA E [''.subsys'', ''snapshots''] (hash treeObject) st3 = (st4, ds)"
    and "dn \<or> ds"
  shows "\<exists>st'. snap E fuel snapshotName st = (st', Some (Inr ())) \<and>
           last (trace st') = ConsoleError (if dn then NameExists else ContentExists) \<and>
           (\<exists>evs. trace st' = trace st @ evs \<and> (\<forall>p b. WriteFile p b \<notin> set evs)) \<and>
           (\<forall>q. file_at (fs st') q = file_at (fs st) q)"
proof -
  have w2: "no_file_written st st2" by (rule no_file_written_snap_prepare [OF assms(2)])
  have w3: "no_file_written st st3"
    using w2 no_file_written_isDuplicateName [OF assms(3)] by (rule no_file_written_trans)
  have w4: "no_file_written st st4"
    using w3 no_file_written_isDuplicateSHA [OF assms(4)] by (rule no_file_written_trans)
  show ?thesis
  proof (cases dn)
    case True
    have s: "snap E fuel snapshotName st = (console_error NameExists st3, Some (Inr ()))"
      using assms(3) True by (intro snap_duplicate_name [OF assms(1,2)]) simp
    have "no_file_written st (console_error NameExists st3)"
      using w3 no_file_written_console_error by (rule no_file_written_trans)
    with s True show ?thesis
      unfolding no_file_written_def by (simp add: last_console_error)
  next
    case False
    with assms(5) have ds by simp
    have s: "snap E fuel snapshotName st = (console_error ContentExists st4, Some (Inr ()))"
      using assms(3,4) False \<open>ds\<close> by (intro snap_duplicate_content [OF assms(1,2)]) simp_all
    have "no_file_written st (console_error ContentExists st4)"
      using w4 no_file_written_console_error by (rule no_file_written_trans)
    with s False show ?thesis
      unfolding no_file_written_def by (simp add: last_console_error)
  qed
qed

lemma sanitize_v2: "sanitize ''v2'' = ''v2''"
  by (simp add: sanitize_def is_alnum_def toLowerCase_def)

lemma prepare_workdir_after: "snap_prepare E0 workdir_after = (workdir_after, Inr workdir_tree)"
  by (simp add: workdir_after_def workdir_tree_def ignore_text_def snap_defs run_defs E0_defs)

lemma name_check_workdir_after:
  "isDuplicateName E0 [''.subsys'', ''snapshots''] ''v2'' workdir_after = (workdir_after, False)"
  by (simp add: workdir_after_def workdir_log_def snap_defs run_defs E0_defs)

lemma digest_check_workdir_after:
  "isDuplicateSHA E0 [''.subsys'', ''snapshots''] (hash workdir_tree) workdir_after
     = (console_log UpToDate workdir_after, True)"
  by (simp add: workdir_after_def workdir_tree_def workdir_log_def snap_defs run_defs E0_defs)

text \<open>After the snapshot \<^verbatim>\<open>v1\<close> of the example directory, a snapshot \<^verbatim>\<open>v2\<close> of the same
  content is refused for its content.\<close>

theorem duplicate_refused_without_writes_witness:
  "sanitize ''v2'' = ''v2'' \<and>
   snap_prepare E0 workdir_after = (workdir_after, Inr workdir_tree) \<and>
   isDuplicateName E0 [''.subsys'', ''snapshots''] ''v2'' workdir_after = (workdir_after, False) \<and>
   isDuplicateSHA E0 [''.subsys'', ''snapshots''] (hash workdir_tree) workdir_after
     = (console_log UpToDate workdir_after, True) \<and>
   (\<exists>st'. snap E0 0 ''v2'' workdir_after = (st', Some (Inr ())) \<and>
          last (trace st') = ConsoleError ContentExists \<and>
          (\<exists>evs. trace st' = trace workdir_after @ evs \<and> (\<forall>p b. WriteFile p b \<notin> set evs)) \<and>
          (\<forall>q. file_at (fs st') q = file_at (fs workdir_after) q))"
  using sanitize_v2 prepare_workdir_after name_check_workdir_after digest_check_workdir_after
    duplicate_refused_without_writes [OF sanitize_v2 prepare_workdir_after
      name_check_workdir_after digest_check_workdir_after, of 0]
  by simp

text \<open>
  Claim C1 at a failing input.  The snapshot \<^verbatim>\<open>v1\<close> of the example directory succeeds,
  its tree has the blob of \<^verbatim>\<open>a.txt\<close>, and the artifact it leaves in the snapshots folder
  is the compressed text of the tree with an empty list of files: the artifact is written
  before \<^verbatim>\<open>processEntry\<close> fills the list.
\<close>

theorem artifact_lists_no_files:
  "snap E0 (Suc (Suc (Suc (Suc (Suc 0))))) ''v1'' workdir = (workdir_after, Some (Inr ())) \<and>
   last (trace workdir_after) = ConsoleLog (SnapshotCreated ''v1'') \<and>
   TreeObject Blob ''a.txt'' ''d242b002'' None \<in> set (nodes workdir_tree) \<and>
   file_at (fs workdir_after) [''.subsys'', ''snapshots'', ''v1.gz'']
     = Some (gzipSync E0 (JSON_stringify E0 (json_of_snapshotData workdir_tree [])))"
  using snap_workdir
  by (simp add: workdir_after_def workdir_tree_def workdir_artifact_def file_at_def)

text \<open>
  Claim C2 at a failing input.  The ignore file of the example directory names
  \<^verbatim>\<open>secret.env\<close> and has the pattern \<^verbatim>\<open>*.log\<close>.  Both files are in the ignore list and
  absent from the tree, and the snapshot still writes the bytes of both into the object
  store: \<^verbatim>\<open>processEntry\<close> does not consult the ignore list.
\<close>

theorem ignored_file_stored_as_object:
  "getIgnoreList E0 (fs workdir) = Inr {''secret.env'', ''debug.log''} \<and>
   ''secret.env'' \<notin> name ` set (nodes workdir_tree) \<and>
   ''debug.log'' \<notin> name ` set (nodes workdir_tree) \<and>
   WriteFile [''.subsys'', ''objects'', ''5d'', ''5c6305''] ''KEY=1''
     \<in> set (trace (fst (snap E0 (Suc (Suc (Suc (Suc (Suc 0))))) ''v1'' workdir))) \<and>
   WriteFile [''.subsys'', ''objects'', ''1a'', ''7f7b05''] ''trace''
     \<in> set (trace (fst (snap E0 (Suc (Suc (Suc (Suc (Suc 0))))) ''v1'' workdir))) \<and>
   file_at (fs (fst (snap E0 (Suc (Suc (Suc (Suc (Suc 0))))) ''v1'' workdir)))
     [''.subsys'', ''objects'', ''5d'', ''5c6305''] = Some ''KEY=1''"
  using workdir_ignoreList
  by (simp add: snap_workdir workdir_after_def workdir_tree_def file_at_def)

section \<open>The tree pass of a restoration\<close>










lemma sibling_apart: "n \<noteq> m \<Longrightarrow> \<not> prefix (p @ [n]) (p @ [m]) \<and> \<not> prefix (p @ [m]) (p @ [n])"
  by simp






















lemma path_join_eval [simp]:
  "path_join [''.subsys'', ''objects''] [''d2'', ''42b002''] = [''.subsys'', ''objects'', ''d2'', ''42b002'']"
  "path_join [''.subsys'', ''objects''] [''1f'', ''4ca705''] = [''.subsys'', ''objects'', ''1f'', ''4ca705'']"
  by (simp_all add: path_join_def)

section \<open>Restoring with objects missing\<close>




end
